theory Spec2Isabelle
  imports Main
begin

section \<open>The typed IR object model\<close>

text \<open>
  The IR rewriter of \<^verbatim>\<open>src/bin2llvmir/utils/ir_modifier.cpp\<close> works on an LLVM module and
  on the decompiler's configuration. Pointers to IR objects become handles (natural
  numbers), a null pointer is \<open>None\<close>, and a failed assertion or a crash of the C++ code is
  an \<open>error\<close> value.
\<close>

type_synonym vid = nat
type_synonym addr = nat

datatype fkind = Half | Single | Double | X86_FP80

datatype ty =
    Void
  | Integer nat
  | Float fkind
  | Pointer ty
  | Array ty nat
  | Struct "ty list" bool
  | Function ty "ty list" bool

datatype castop = BitCast | PtrToInt | IntToPtr | IntegerCast | FPCast

datatype const =
    CInt ty int
  | CUndef ty
  | CGlobal vid
  | CFunction vid
  | CCast castop const ty
  | CExtractValue const
  | CInsertValue const const
  | CAggregate ty "const list"

datatype val = VConst const | VInst vid | VArg vid nat

datatype opcode =
    Alloca ty
  | Load
  | Store
  | Cast castop
  | ExtractValue
  | InsertValue
  | GEP
  | Call
  | OtherInst

record inst =
  opc :: opcode
  ops :: "val list"
  ity :: ty
  iname :: string

record gvar =
  gty :: ty
  ginit :: "const option"
  gconst :: bool
  gname :: string

record func =
  fret :: ty
  fparams :: "ty list"
  fblocks :: "vid list list"
  fname :: string

datatype storage = GlobalAddr addr | StackOffset vid int

record cobject =
  co_handle :: "vid option"
  co_name :: string
  co_storage :: storage
  co_type :: "ty option"
  co_crypto :: string
  co_from_debug :: bool
  co_wide :: bool

text \<open>The module (instructions, functions, globals, the ABI word type) and the
  configuration. The configuration's own code is not part of the sources; it is the store
  the specification describes, keyed by IR handle, by binary address and by
  (function, stack offset).\<close>

record state =
  insts :: "vid \<Rightarrow> inst option"
  funcs :: "(vid \<times> func) list"
  globals :: "(vid \<times> gvar) list"
  default_type :: ty
  cfg_objects :: "vid \<Rightarrow> cobject option"
  cfg_globals :: "addr \<Rightarrow> cobject option"
  cfg_stack :: "vid \<times> int \<Rightarrow> vid option"
  cfg_functions :: "addr \<Rightarrow> vid option"
  cfg_crypto :: "addr \<Rightarrow> (string \<times> string \<times> ty) option"
  arch_arm_or_thumb :: bool
  arch_pic32 :: bool
  next_id :: nat

datatype error = AssertFailed | UnsupportedConversion | NullDeref | OutOfFuel

subsection \<open>Type queries\<close>

fun isPointerTy :: "ty \<Rightarrow> bool" where
  "isPointerTy (Pointer _) = True"
| "isPointerTy _ = False"

fun isIntegerTy :: "ty \<Rightarrow> bool" where
  "isIntegerTy (Integer _) = True"
| "isIntegerTy _ = False"

fun isFloatingPointTy :: "ty \<Rightarrow> bool" where
  "isFloatingPointTy (Float _) = True"
| "isFloatingPointTy _ = False"

fun isAggregateType :: "ty \<Rightarrow> bool" where
  "isAggregateType (Struct _ _) = True"
| "isAggregateType (Array _ _) = True"
| "isAggregateType _ = False"

fun fkindBits :: "fkind \<Rightarrow> nat" where
  "fkindBits Half = 16"
| "fkindBits Single = 32"
| "fkindBits Double = 64"
| "fkindBits X86_FP80 = 80"

fun getPrimitiveSizeInBits :: "ty \<Rightarrow> nat" where
  "getPrimitiveSizeInBits (Integer n) = n"
| "getPrimitiveSizeInBits (Float k) = fkindBits k"
| "getPrimitiveSizeInBits _ = 0"

fun isEmptyTy :: "ty \<Rightarrow> bool" where
  "isEmptyTy (Array t n) = (n = 0 \<or> isEmptyTy t)"
| "isEmptyTy (Struct ts _) = list_all isEmptyTy ts"
| "isEmptyTy _ = False"

text \<open>The type at index 0 of an aggregate: \<open>getTypeAtIndex(0u)\<close>, and the type an
  extract-value at index \<open>[0]\<close> yields. There is none for an empty struct and for an
  array of no elements.\<close>

fun getTypeAtIndex0 :: "ty \<Rightarrow> ty option" where
  "getTypeAtIndex0 (Struct (t # ts) _) = Some t"
| "getTypeAtIndex0 (Array t n) = (if n = 0 then None else Some t)"
| "getTypeAtIndex0 _ = None"

fun getPointerElementType :: "ty \<Rightarrow> ty option" where
  "getPointerElementType (Pointer t) = Some t"
| "getPointerElementType _ = None"

text \<open>\<open>PointerType::isValidElementType\<close>: every type of this model but \<open>void\<close>.\<close>

fun isValidElementType :: "ty \<Rightarrow> bool" where
  "isValidElementType Void = False"
| "isValidElementType _ = True"

subsection \<open>Types of values\<close>

fun lookup :: "('k \<times> 'v) list \<Rightarrow> 'k \<Rightarrow> 'v option" where
  "lookup [] k = None"
| "lookup ((k', v) # kvs) k = (if k' = k then Some v else lookup kvs k)"

fun nth_opt :: "'a list \<Rightarrow> nat \<Rightarrow> 'a option" where
  "nth_opt [] n = None"
| "nth_opt (x # xs) 0 = Some x"
| "nth_opt (x # xs) (Suc n) = nth_opt xs n"

fun ctype :: "state \<Rightarrow> const \<Rightarrow> ty option" where
  "ctype s (CInt t n) = Some t"
| "ctype s (CUndef t) = Some t"
| "ctype s (CGlobal g) = map_option (\<lambda>gv. Pointer (gty gv)) (lookup (globals s) g)"
| "ctype s (CFunction f) =
     map_option (\<lambda>fn. Pointer (Function (fret fn) (fparams fn) False)) (lookup (funcs s) f)"
| "ctype s (CCast oc c t) = Some t"
| "ctype s (CExtractValue c) =
     (case ctype s c of None \<Rightarrow> None | Some t \<Rightarrow> getTypeAtIndex0 t)"
| "ctype s (CInsertValue agg c) = ctype s agg"
| "ctype s (CAggregate t cs) = Some t"

fun type_of :: "state \<Rightarrow> val \<Rightarrow> ty option" where
  "type_of s (VConst c) = ctype s c"
| "type_of s (VInst i) = map_option ity (insts s i)"
| "type_of s (VArg f k) =
     (case lookup (funcs s) f of None \<Rightarrow> None | Some fn \<Rightarrow> nth_opt (fparams fn) k)"

fun isConstant :: "val \<Rightarrow> bool" where
  "isConstant (VConst c) = True"
| "isConstant _ = False"

fun isLoadInst :: "state \<Rightarrow> val \<Rightarrow> bool" where
  "isLoadInst s (VInst i) = (case insts s i of None \<Rightarrow> False | Some ins \<Rightarrow> opc ins = Load)"
| "isLoadInst s _ = False"


subsection \<open>Creating and placing instructions\<close>

definition newInst :: "state \<Rightarrow> inst \<Rightarrow> vid \<times> state" where
  "newInst s i =
     (next_id s, s\<lparr>insts := (insts s)(next_id s \<mapsto> i), next_id := Suc (next_id s)\<rparr>)"

definition ins_before :: "vid \<Rightarrow> vid \<Rightarrow> vid list \<Rightarrow> vid list" where
  "ins_before i b blk = concat (map (\<lambda>x. if x = b then [i, x] else [x]) blk)"

definition ins_after :: "vid \<Rightarrow> vid \<Rightarrow> vid list \<Rightarrow> vid list" where
  "ins_after i a blk = concat (map (\<lambda>x. if x = a then [x, i] else [x]) blk)"

definition map_blocks :: "(vid list \<Rightarrow> vid list) \<Rightarrow> state \<Rightarrow> state" where
  "map_blocks g s =
     s\<lparr>funcs := map (\<lambda>(f, fn). (f, fn\<lparr>fblocks := map g (fblocks fn)\<rparr>)) (funcs s)\<rparr>"

definition in_layout :: "state \<Rightarrow> vid \<Rightarrow> bool" where
  "in_layout s i = list_ex (\<lambda>(f, fn). list_ex (\<lambda>blk. i \<in> set blk) (fblocks fn)) (funcs s)"

text \<open>\<open>i->insertBefore(b)\<close> and \<open>i->insertAfter(a)\<close>: the anchor must stand in a block.\<close>

definition insertBefore :: "state \<Rightarrow> vid \<Rightarrow> vid \<Rightarrow> error + state" where
  "insertBefore s i b =
     (if in_layout s b then Inr (map_blocks (ins_before i b) s) else Inl NullDeref)"

definition insertAfter :: "state \<Rightarrow> vid \<Rightarrow> vid \<Rightarrow> error + state" where
  "insertAfter s i a =
     (if in_layout s a then Inr (map_blocks (ins_after i a) s) else Inl NullDeref)"

definition insertBeforeAfter ::
  "state \<Rightarrow> vid \<Rightarrow> vid option \<Rightarrow> vid option \<Rightarrow> error + state" where
  "insertBeforeAfter s i b a =
     (case b of
        Some b' \<Rightarrow> insertBefore s i b'
      | None \<Rightarrow> (case a of Some a' \<Rightarrow> insertAfter s i a' | None \<Rightarrow> Inl NullDeref))"

text \<open>\<open>dyn_cast<Instruction>\<close>.\<close>

fun asInstruction :: "val \<Rightarrow> vid option" where
  "asInstruction (VInst i) = Some i"
| "asInstruction _ = None"

section \<open>The type converter\<close>

type_synonym conv_result = "error + (val option \<times> state)"

text \<open>One primitive cast: a constant expression in const-expr mode, otherwise a new cast
  instruction placed by \<open>insertBeforeAfter\<close>.\<close>

definition constCast :: "state \<Rightarrow> castop \<Rightarrow> val \<Rightarrow> ty \<Rightarrow> conv_result" where
  "constCast s oc v t =
     (case v of VConst c \<Rightarrow> Inr (Some (VConst (CCast oc c t)), s) | _ \<Rightarrow> Inl AssertFailed)"

definition placeInst ::
  "state \<Rightarrow> inst \<Rightarrow> vid option \<Rightarrow> vid option \<Rightarrow> conv_result" where
  "placeInst s ins b a =
     (case newInst s ins of (i, s1) \<Rightarrow>
        (case insertBeforeAfter s1 i b a of
           Inl e \<Rightarrow> Inl e
         | Inr s2 \<Rightarrow> Inr (Some (VInst i), s2)))"

definition castInst :: "castop \<Rightarrow> val \<Rightarrow> ty \<Rightarrow> inst" where
  "castInst oc v t = \<lparr>opc = Cast oc, ops = [v], ity = t, iname = []\<rparr>"

definition castTo ::
  "state \<Rightarrow> castop \<Rightarrow> val \<Rightarrow> ty \<Rightarrow> vid option \<Rightarrow> vid option \<Rightarrow> bool \<Rightarrow> conv_result" where
  "castTo s oc v t b a constExpr =
     (if constExpr then constCast s oc v t else placeInst s (castInst oc v t) b a)"

text \<open>The switch on the bit width of the target integer type.\<close>

definition floatOfWidth :: "nat \<Rightarrow> fkind option" where
  "floatOfWidth w =
     (if w = 16 then Some Half
      else if w = 32 then Some Single
      else if w = 64 then Some Double
      else if w = 80 then Some X86_FP80
      else None)"

type_synonym converter =
  "state \<Rightarrow> val option \<Rightarrow> ty option \<Rightarrow> vid option \<Rightarrow> vid option \<Rightarrow> bool \<Rightarrow> conv_result"

text \<open>\<open>x = convertToType(val, mid, ...); a = dyn_cast<Instruction>(x);
  conv = convertToType(x, type, before, a, constExpr)\<close>.\<close>

definition convVia ::
  "converter \<Rightarrow> state \<Rightarrow> val \<Rightarrow> ty \<Rightarrow> ty \<Rightarrow> vid option \<Rightarrow> vid option \<Rightarrow> bool
     \<Rightarrow> conv_result" where
  "convVia rec s v mid t b a constExpr =
     (case rec s (Some v) (Some mid) b a constExpr of
        Inl e \<Rightarrow> Inl e
      | Inr (x, s1) \<Rightarrow> rec s1 x (Some t) b (case x of None \<Rightarrow> None | Some x' \<Rightarrow> asInstruction x') constExpr)"

text \<open>An instruction built from the result \<open>tmp\<close> of an inner conversion: it goes where the
  caller asked when \<open>tmp\<close> is the value itself, and after \<open>tmp\<close> otherwise
  (\<open>cast<Instruction>(tmp)\<close>).\<close>

definition placeAfterInner ::
  "state \<Rightarrow> inst \<Rightarrow> val \<Rightarrow> val \<Rightarrow> vid option \<Rightarrow> vid option \<Rightarrow> conv_result" where
  "placeAfterInner s ins v tmp b a =
     (if v = tmp then placeInst s ins b a
      else (case tmp of VInst j \<Rightarrow> placeInst s ins b (Some j) | _ \<Rightarrow> Inl AssertFailed))"

definition intToFloat ::
  "converter \<Rightarrow> state \<Rightarrow> val \<Rightarrow> ty \<Rightarrow> vid option \<Rightarrow> vid option \<Rightarrow> bool \<Rightarrow> conv_result" where
  "intToFloat rec s v t b a constExpr =
     (case rec s (Some v) (Some (Integer (getPrimitiveSizeInBits t))) b a constExpr of
        Inl e \<Rightarrow> Inl e
      | Inr (None, s1) \<Rightarrow> Inl NullDeref
      | Inr (Some szConv, s1) \<Rightarrow>
          (if constExpr then constCast s1 BitCast szConv t
           else placeAfterInner s1 (castInst BitCast szConv t) v szConv b a))"

definition floatToInt ::
  "converter \<Rightarrow> state \<Rightarrow> val \<Rightarrow> ty \<Rightarrow> ty \<Rightarrow> vid option \<Rightarrow> vid option \<Rightarrow> bool
     \<Rightarrow> conv_result" where
  "floatToInt rec s v vt t b a constExpr =
     (case floatOfWidth (getPrimitiveSizeInBits t) of
        None \<Rightarrow> convVia rec s v (Integer 32) t b a constExpr
      | Some k \<Rightarrow>
          (if vt \<noteq> Float k then convVia rec s v (Float k) t b a constExpr
           else castTo s BitCast v t b a constExpr))"

definition loadAggregate ::
  "converter \<Rightarrow> state \<Rightarrow> val \<Rightarrow> ty \<Rightarrow> vid option \<Rightarrow> vid option \<Rightarrow> bool \<Rightarrow> conv_result" where
  "loadAggregate rec s v t b a constExpr =
     (case v of
        VInst l \<Rightarrow>
          (case insts s l of
             None \<Rightarrow> Inl NullDeref
           | Some li \<Rightarrow>
               (case ops li of
                  [] \<Rightarrow> Inl NullDeref
                | p # _ \<Rightarrow>
                    (if \<not> isValidElementType t then Inl AssertFailed
                     else (case rec s (Some p) (Some (Pointer t)) b a constExpr of
                        Inl e \<Rightarrow> Inl e
                      | Inr (Some (VInst c), s1) \<Rightarrow>
                          (case type_of s1 (VInst c) of
                             Some (Pointer et) \<Rightarrow>
                               (case newInst s1 \<lparr>opc = Load, ops = [VInst c], ity = et, iname = []\<rparr> of
                                  (nl, s2) \<Rightarrow>
                                    (case insertAfter s2 nl c of
                                       Inl e \<Rightarrow> Inl e
                                     | Inr s3 \<Rightarrow> Inr (Some (VInst nl), s3)))
                           | _ \<Rightarrow> Inl AssertFailed)
                      | Inr _ \<Rightarrow> Inl AssertFailed))))
      | _ \<Rightarrow> Inl AssertFailed)"

definition fromAggregate ::
  "converter \<Rightarrow> state \<Rightarrow> val \<Rightarrow> ty \<Rightarrow> ty \<Rightarrow> vid option \<Rightarrow> vid option \<Rightarrow> bool
     \<Rightarrow> conv_result" where
  "fromAggregate rec s v vt t b a constExpr =
     (case getTypeAtIndex0 vt of
        None \<Rightarrow> Inl AssertFailed
      | Some et \<Rightarrow>
          (case (if constExpr
                 then (case v of VConst c \<Rightarrow> Inr (Some (VConst (CExtractValue c)), s)
                               | _ \<Rightarrow> Inl AssertFailed)
                 else placeInst s \<lparr>opc = ExtractValue, ops = [v], ity = et, iname = []\<rparr> b a) of
             Inl e \<Rightarrow> Inl e
           | Inr (toSimple, s1) \<Rightarrow>
               rec s1 toSimple (Some t) b
                 (case toSimple of None \<Rightarrow> None | Some x \<Rightarrow> asInstruction x) constExpr))"

definition toComposite ::
  "converter \<Rightarrow> state \<Rightarrow> val \<Rightarrow> ty \<Rightarrow> vid option \<Rightarrow> vid option \<Rightarrow> bool \<Rightarrow> conv_result" where
  "toComposite rec s v t b a constExpr =
     (if isEmptyTy t then Inl AssertFailed
      else (case getTypeAtIndex0 t of
         None \<Rightarrow> Inl AssertFailed
       | Some idxt \<Rightarrow>
           (case rec s (Some v) (Some idxt) b a constExpr of
              Inl e \<Rightarrow> Inl e
            | Inr (None, s1) \<Rightarrow> Inl NullDeref
            | Inr (Some tmp, s1) \<Rightarrow>
                (if constExpr
                 then (case tmp of
                         VConst c \<Rightarrow> Inr (Some (VConst (CInsertValue (CUndef t) c)), s1)
                       | _ \<Rightarrow> Inl AssertFailed)
                 else placeAfterInner s1
                        \<lparr>opc = InsertValue, ops = [VConst (CUndef t), tmp], ity = t, iname = []\<rparr>
                        v tmp b a))))"

text \<open>The ladder of \<open>convertToType\<close> once the value and the type are known not to be null,
  with \<open>vt\<close> the type of the value; \<open>rec\<close> is \<open>convertToType\<close> itself.\<close>

definition convertLadder ::
  "converter \<Rightarrow> state \<Rightarrow> val \<Rightarrow> ty \<Rightarrow> ty \<Rightarrow> vid option \<Rightarrow> vid option \<Rightarrow> bool
     \<Rightarrow> conv_result" where
  "convertLadder rec s v vt t b a constExpr =
     (if vt = t then Inr (Some v, s)
      else if isPointerTy vt \<and> isPointerTy t then castTo s BitCast v t b a constExpr
      else if isPointerTy vt \<and> isIntegerTy t then castTo s PtrToInt v t b a constExpr
      else if isIntegerTy vt \<and> isPointerTy t then castTo s IntToPtr v t b a constExpr
      else if isIntegerTy vt \<and> isIntegerTy t then castTo s IntegerCast v t b a constExpr
      else if isIntegerTy vt \<and> isFloatingPointTy t then intToFloat rec s v t b a constExpr
      else if isPointerTy vt \<and> isFloatingPointTy t
        then convVia rec s v (Integer (getPrimitiveSizeInBits t)) t b a constExpr
      else if isFloatingPointTy vt \<and> isIntegerTy t then floatToInt rec s v vt t b a constExpr
      else if isFloatingPointTy vt \<and> isPointerTy t
        then convVia rec s v (Integer (getPrimitiveSizeInBits vt)) t b a constExpr
      else if isFloatingPointTy vt \<and> isFloatingPointTy t then castTo s FPCast v t b a constExpr
      else if isLoadInst s v \<and> isAggregateType vt \<and> \<not> constExpr
        then loadAggregate rec s v t b a constExpr
      else if isAggregateType vt then fromAggregate rec s v vt t b a constExpr
      else if isAggregateType t then toComposite rec s v t b a constExpr
      else Inl UnsupportedConversion)"

text \<open>\<open>convertToType\<close>. The first argument bounds the depth of the recursion; the entry
  points below give it a bound computed from the two types.\<close>

primrec convertToType :: "nat \<Rightarrow> converter" where
  "convertToType 0 s valo tyo before after constExpr = Inl OutOfFuel"
| "convertToType (Suc n) s valo tyo before after constExpr =
     (case valo of
        None \<Rightarrow> Inr (None, s)
      | Some v \<Rightarrow>
          (case tyo of
             None \<Rightarrow> Inr (None, s)
           | Some t \<Rightarrow>
               (if \<not> constExpr \<and> before = None \<and> after = None then Inr (None, s)
                else if constExpr \<and> \<not> isConstant v then Inl AssertFailed
                else (case type_of s v of
                        None \<Rightarrow> Inl NullDeref
                      | Some vt \<Rightarrow>
                          convertLadder (convertToType n) s v vt t before after constExpr))))"

text \<open>The depth of the recursion is bounded by the nesting of the two types.\<close>

fun tdepth :: "ty \<Rightarrow> nat" where
  "tdepth (Struct (t # ts) p) = Suc (tdepth t)"
| "tdepth (Array t n) = Suc (tdepth t)"
| "tdepth _ = 0"

definition convFuel :: "state \<Rightarrow> val option \<Rightarrow> ty option \<Rightarrow> nat" where
  "convFuel s valo tyo =
     (case valo of
        None \<Rightarrow> 1
      | Some v \<Rightarrow>
          (case tyo of
             None \<Rightarrow> 1
           | Some t \<Rightarrow>
               (case type_of s v of None \<Rightarrow> 1 | Some vt \<Rightarrow> tdepth vt + tdepth t + 3)))"

subsection \<open>Entry points\<close>

definition convertValueToType ::
  "state \<Rightarrow> val option \<Rightarrow> ty option \<Rightarrow> vid option \<Rightarrow> conv_result" where
  "convertValueToType s valo tyo before =
     convertToType (convFuel s valo tyo) s valo tyo before None False"

definition convertValueToTypeAfter ::
  "state \<Rightarrow> val option \<Rightarrow> ty option \<Rightarrow> vid option \<Rightarrow> conv_result" where
  "convertValueToTypeAfter s valo tyo after =
     convertToType (convFuel s valo tyo) s valo tyo None after False"

text \<open>\<open>dyn_cast_or_null<Constant>(v)\<close>, with the assertion that a result is a constant.\<close>

definition convertConstantToType ::
  "state \<Rightarrow> const option \<Rightarrow> ty option \<Rightarrow> error + (const option \<times> state)" where
  "convertConstantToType s co tyo =
     (case convertToType (convFuel s (map_option VConst co) tyo) s (map_option VConst co) tyo
             None None True of
        Inl e \<Rightarrow> Inl e
      | Inr (None, s') \<Rightarrow> Inr (None, s')
      | Inr (Some (VConst c), s') \<Rightarrow> Inr (Some c, s')
      | Inr (Some _, s') \<Rightarrow> Inl AssertFailed)"

subsection \<open>Properties of a converter\<close>

text \<open>The recursive calls of the ladder are made through a parameter; these are the
  properties of that parameter the proofs below carry through the recursion.\<close>

definition anchored :: "vid option \<Rightarrow> vid option \<Rightarrow> bool \<Rightarrow> bool" where
  "anchored b a ce = (ce \<or> b \<noteq> None \<or> a \<noteq> None)"

definition typed_results :: "converter \<Rightarrow> bool" where
  "typed_results rec =
     (\<forall>s v t b a ce r s'. rec s v (Some t) b a ce = Inr (Some r, s') \<longrightarrow> type_of s' r = Some t)"

definition null_results :: "converter \<Rightarrow> bool" where
  "null_results rec =
     (\<forall>s t b a ce r s'. rec s None t b a ce = Inr (r, s') \<longrightarrow> r = None)"

definition inst_results :: "converter \<Rightarrow> bool" where
  "inst_results rec =
     (\<forall>s v t b a r s'. rec s (Some v) (Some t) b a False = Inr (Some r, s') \<longrightarrow>
        (r = v \<and> type_of s v = Some t) \<or> (\<exists>i. r = VInst i))"

definition nonnull_results :: "converter \<Rightarrow> bool" where
  "nonnull_results rec =
     (\<forall>s v t b a ce r s'. rec s (Some v) (Some t) b a ce = Inr (r, s') \<longrightarrow>
        anchored b a ce \<longrightarrow> r \<noteq> None)"

definition const_results :: "converter \<Rightarrow> bool" where
  "const_results rec =
     (\<forall>s v t b a r s'. rec s v t b a True = Inr (r, s') \<longrightarrow>
        s' = s \<and> (\<forall>x. r = Some x \<longrightarrow> isConstant x))"

text \<open>The number of nested calls a conversion between two scalar types makes.\<close>

fun sneed :: "ty \<Rightarrow> ty \<Rightarrow> nat" where
  "sneed (Integer w) (Float k) = 2"
| "sneed (Pointer p) (Float k) = 3"
| "sneed (Float k) (Integer w) =
     (if floatOfWidth w = Some k then 1 else if floatOfWidth w = None then 3 else 2)"
| "sneed (Float k) (Pointer p) = 2"
| "sneed vt t = 1"

text \<open>In a well-typed IR the operand of a load is a pointer.\<close>

definition load_ok :: "state \<Rightarrow> val \<Rightarrow> bool" where
  "load_ok s v =
     (case v of
        VInst l \<Rightarrow>
          (case insts s l of
             None \<Rightarrow> True
           | Some li \<Rightarrow>
               (if opc li = Load
                then (case ops li of
                        [] \<Rightarrow> True
                      | p # ps \<Rightarrow> (case type_of s p of Some (Pointer pt) \<Rightarrow> True | _ \<Rightarrow> False))
                else True))
      | _ \<Rightarrow> True)"

definition null_fueled :: "converter \<Rightarrow> bool" where
  "null_fueled rec = (\<forall>s t b a ce. rec s None t b a ce \<noteq> Inl OutOfFuel)"

definition scalar_fueled :: "nat \<Rightarrow> converter \<Rightarrow> bool" where
  "scalar_fueled n rec =
     (\<forall>s v vt t b a ce. type_of s v = Some vt \<longrightarrow> \<not> isAggregateType vt \<longrightarrow>
        \<not> isAggregateType t \<longrightarrow> sneed vt t \<le> n \<longrightarrow>
        rec s (Some v) (Some t) b a ce \<noteq> Inl OutOfFuel)"

definition fueled :: "nat \<Rightarrow> converter \<Rightarrow> bool" where
  "fueled n rec =
     (\<forall>s v vt t b a ce. type_of s v = Some vt \<longrightarrow> load_ok s v \<longrightarrow>
        tdepth vt + tdepth t + 3 \<le> n \<longrightarrow>
        rec s (Some v) (Some t) b a ce \<noteq> Inl OutOfFuel)"

subsection \<open>The route of a float-to-integer conversion, as the specification words it\<close>

text \<open>One more cast applied to the result of a conversion; in live mode it is placed
  after the instruction that conversion produced.\<close>

definition castThen ::
  "conv_result \<Rightarrow> castop \<Rightarrow> ty \<Rightarrow> vid option \<Rightarrow> bool \<Rightarrow> conv_result" where
  "castThen res oc t b ce =
     (case res of
        Inl e \<Rightarrow> Inl e
      | Inr (None, s1) \<Rightarrow> Inl NullDeref
      | Inr (Some x, s1) \<Rightarrow> castTo s1 oc x t b (asInstruction x) ce)"

text \<open>A value of float kind \<open>k\<close> to the integer type of width \<open>w\<close>: when no float type has
  width \<open>w\<close>, the value goes to \<open>i32\<close> (brought to the 32-bit float first, then bit-cast)
  and that result is integer-cast to the target; otherwise the value is brought to the
  float type of width \<open>w\<close> and bit-cast to the target.\<close>

definition floatToIntRoute ::
  "state \<Rightarrow> val \<Rightarrow> fkind \<Rightarrow> nat \<Rightarrow> vid option \<Rightarrow> vid option \<Rightarrow> bool \<Rightarrow> conv_result" where
  "floatToIntRoute s v k w b a ce =
     (case floatOfWidth w of
        None \<Rightarrow>
          castThen
            (if k = Single then castTo s BitCast v (Integer 32) b a ce
             else castThen (castTo s FPCast v (Float Single) b a ce) BitCast (Integer 32) b ce)
            IntegerCast (Integer w) b ce
      | Some k' \<Rightarrow>
          (if k = k' then castTo s BitCast v (Integer w) b a ce
           else castThen (castTo s FPCast v (Float k') b a ce) BitCast (Integer w) b ce))"

section \<open>Stack slots\<close>

text \<open>\<open>std::to_string\<close> of an \<open>int\<close>.\<close>

definition digit_char :: "nat \<Rightarrow> char" where
  "digit_char d = ''0123456789'' ! d"

function digits :: "nat \<Rightarrow> string" where
  "digits n = (if n < 10 then [digit_char n] else digits (n div 10) @ [digit_char (n mod 10)])"
  by pat_completeness auto
termination
  by (relation "measure id") auto

definition to_string :: "int \<Rightarrow> string" where
  "to_string i = (if i < 0 then CHR ''-'' # digits (nat (- i)) else digits (nat i))"

text \<open>\<open>inst_begin(fnc)\<close>: the first instruction of the function, if it has one.\<close>

definition inst_begin :: "func \<Rightarrow> vid option" where
  "inst_begin fn = (case concat (fblocks fn) of [] \<Rightarrow> None | i # _ \<Rightarrow> Some i)"

text \<open>Modelled from the spec: the configuration's stack-variable operations
  (\<open>getLlvmStackVariable\<close>, \<open>getConfigStackVariable\<close>, \<open>insertStackVariable\<close>) are not in the
  sources. The specification keys a slot in ConfigStore by (function, offset) and an
  object by its IR handle; the inserted object carries the name of the alloca and the
  stack-offset storage.\<close>

definition getLlvmStackVariable :: "state \<Rightarrow> vid \<Rightarrow> int \<Rightarrow> vid option" where
  "getLlvmStackVariable s fnc offset = cfg_stack s (fnc, offset)"

definition getConfigStackVariable :: "state \<Rightarrow> vid \<Rightarrow> cobject option" where
  "getConfigStackVariable s a = cfg_objects s a"

definition insertStackVariable :: "state \<Rightarrow> vid \<Rightarrow> vid \<Rightarrow> int \<Rightarrow> string \<Rightarrow> ty
    \<Rightarrow> cobject \<times> state" where
  "insertStackVariable s fnc a offset n t =
     (let csv = \<lparr>co_handle = Some a, co_name = n, co_storage = StackOffset fnc offset,
                 co_type = Some t, co_crypto = [], co_from_debug = False, co_wide = False\<rparr>
      in (csv, s\<lparr>cfg_objects := (cfg_objects s)(a \<mapsto> csv),
                 cfg_stack := (cfg_stack s)((fnc, offset) \<mapsto> a)\<rparr>))"

definition getStackVariable ::
  "state \<Rightarrow> vid \<Rightarrow> int \<Rightarrow> ty \<Rightarrow> string \<Rightarrow> error + ((vid \<times> cobject) \<times> state)" where
  "getStackVariable s fnc offset type name =
     (let type = (if \<not> isValidElementType type then default_type s else type);
          n = (if name = [] then ''stack_var'' else name) @ ''_'' @ to_string offset
      in case getLlvmStackVariable s fnc offset of
           Some ret \<Rightarrow>
             (case getConfigStackVariable s ret of
                None \<Rightarrow> Inl AssertFailed
              | Some csv \<Rightarrow> Inr ((ret, csv), s))
         | None \<Rightarrow>
             (case newInst s \<lparr>opc = Alloca type, ops = [], ity = Pointer type, iname = n\<rparr> of
                (ret, s1) \<Rightarrow>
                  (case lookup (funcs s1) fnc of
                     None \<Rightarrow> Inl NullDeref
                   | Some fn \<Rightarrow>
                       (case inst_begin fn of
                          None \<Rightarrow> Inl AssertFailed
                        | Some it \<Rightarrow>
                            (case insertBefore s1 ret it of
                               Inl e \<Rightarrow> Inl e
                             | Inr s2 \<Rightarrow>
                                 (case insertStackVariable s2 fnc ret offset n type of
                                    (csv, s3) \<Rightarrow> Inr ((ret, csv), s3)))))))"

section \<open>Global variables materialised from addresses\<close>

subsection \<open>The collaborators\<close>

text \<open>The object-file image, the string utilities and the debug information are not
  part of the sources: they are parameters. \<open>getConstantTyped\<close> is
  \<open>FileImage::getConstant(type, addr)\<close>, \<open>getConstantWide\<close> the same with the wide-string
  flag given; \<open>getConstantAuto\<close> is
  \<open>FileImage::getConstant(config, dbgf, addr)\<close>, which sees the module and the
  configuration.\<close>

record image =
  hasDataOnAddress :: "addr \<Rightarrow> bool"
  hasReadOnlyDataOnAddress :: "addr \<Rightarrow> bool"
  isCodeSegment :: "addr \<Rightarrow> bool"
  getNTBS :: "addr \<Rightarrow> string option"
  getWord :: "addr \<Rightarrow> nat option"
  getBytesPerWord :: nat
  getConstantTyped :: "ty \<Rightarrow> addr \<Rightarrow> const option"
  getConstantWide :: "ty \<Rightarrow> addr \<Rightarrow> bool \<Rightarrow> const option"
  getConstantAuto :: "state \<Rightarrow> addr \<Rightarrow> const option"
  isNiceString :: "string \<Rightarrow> bool"
  appendHex :: "string \<Rightarrow> addr \<Rightarrow> string"

record dvar =
  dv_name :: string
  dv_type :: "ty option"

type_synonym debugformat = "addr \<Rightarrow> dvar option"

subsection \<open>References between constants and globals\<close>

fun crefs :: "const \<Rightarrow> vid list" where
  "crefs (CGlobal g) = [g]"
| "crefs (CCast oc c t) = crefs c"
| "crefs (CExtractValue c) = crefs c"
| "crefs (CInsertValue agg c) = crefs agg @ crefs c"
| "crefs (CAggregate t cs) = concat (map crefs cs)"
| "crefs _ = []"

fun vrefs :: "val \<Rightarrow> vid list" where
  "vrefs (VConst c) = crefs c"
| "vrefs _ = []"

text \<open>Every occurrence of the global \<open>g\<close> in a constant replaced by \<open>r\<close>.\<close>

fun csubst :: "vid \<Rightarrow> const \<Rightarrow> const \<Rightarrow> const" where
  "csubst g r (CGlobal h) = (if h = g then r else CGlobal h)"
| "csubst g r (CCast oc c t) = CCast oc (csubst g r c) t"
| "csubst g r (CExtractValue c) = CExtractValue (csubst g r c)"
| "csubst g r (CInsertValue agg c) = CInsertValue (csubst g r agg) (csubst g r c)"
| "csubst g r (CAggregate t cs) = CAggregate t (map (csubst g r) cs)"
| "csubst g r c = c"

fun vsubst :: "vid \<Rightarrow> const \<Rightarrow> val \<Rightarrow> val" where
  "vsubst g r (VConst c) = VConst (csubst g r c)"
| "vsubst g r v = v"

definition all_inst_ids :: "state \<Rightarrow> vid list" where
  "all_inst_ids s = concat (map (\<lambda>(f, fn). concat (fblocks fn)) (funcs s))"

definition global_used :: "state \<Rightarrow> vid \<Rightarrow> bool" where
  "global_used s g =
     (list_ex (\<lambda>(h, gv). case ginit gv of None \<Rightarrow> False | Some c \<Rightarrow> g \<in> set (crefs c))
        (globals s)
      \<or> list_ex (\<lambda>i. case insts s i of
                        None \<Rightarrow> False
                      | Some ins \<Rightarrow> list_ex (\<lambda>v. g \<in> set (vrefs v)) (ops ins))
           (all_inst_ids s))"

text \<open>\<open>gv->replaceAllUsesWith(conv)\<close> for a global: in every initializer and in every
  operand.\<close>

definition replaceGlobalUses :: "state \<Rightarrow> vid \<Rightarrow> const \<Rightarrow> state" where
  "replaceGlobalUses s g r =
     s\<lparr>globals := map (\<lambda>(h, gv). (h, gv\<lparr>ginit := map_option (csubst g r) (ginit gv)\<rparr>))
                     (globals s),
       insts := (\<lambda>i. map_option (\<lambda>ins. ins\<lparr>ops := map (vsubst g r) (ops ins)\<rparr>)
                        (insts s i))\<rparr>"

text \<open>\<open>gv->eraseFromParent()\<close>: the global leaves the module and is destroyed; LLVM
  asserts that a destroyed value has no uses left.\<close>

definition eraseGlobal :: "state \<Rightarrow> vid \<Rightarrow> error + state" where
  "eraseGlobal s g =
     (let s1 = s\<lparr>globals := filter (\<lambda>(h, gv). h \<noteq> g) (globals s)\<rparr>
      in if global_used s1 g then Inl AssertFailed else Inr s1)"

text \<open>\<open>new GlobalVariable(module, type, isConstant, linkage, init, name)\<close>: the global
  is appended to the module. LLVM asserts that an initializer has the type of the
  global. Names are recorded as requested.\<close>

definition newGlobal :: "state \<Rightarrow> gvar \<Rightarrow> error + (vid \<times> state)" where
  "newGlobal s gv =
     (if (case ginit gv of None \<Rightarrow> False | Some c \<Rightarrow> ctype s c \<noteq> Some (gty gv))
      then Inl AssertFailed
      else Inr (next_id s,
                s\<lparr>globals := globals s @ [(next_id s, gv)], next_id := Suc (next_id s)\<rparr>))"

subsection \<open>The configuration's global-variable operations\<close>

text \<open>Modelled from the spec: \<open>Config::getLlvmGlobalVariable(name, addr)\<close>,
  \<open>getConfigGlobalVariable(addr)\<close> and \<open>insertGlobalVariable\<close> are not in the sources. The
  specification keys ConfigStore by IR handle and by binary address, mirrors every global
  that has an address, and has \<open>get_global_variable\<close> return a global that already exists
  under the name and address asked for: the global of that name in the module, or else
  the global the configuration holds for the address.\<close>

definition getLlvmGlobalVariable :: "state \<Rightarrow> string \<Rightarrow> addr \<Rightarrow> vid option" where
  "getLlvmGlobalVariable s name a =
     (case find (\<lambda>(g, gv). gname gv = name) (globals s) of
        Some (g, gv) \<Rightarrow> Some g
      | None \<Rightarrow> (case cfg_globals s a of None \<Rightarrow> None | Some co \<Rightarrow> co_handle co))"

definition getConfigGlobalVariable :: "state \<Rightarrow> addr \<Rightarrow> cobject option" where
  "getConfigGlobalVariable s a = cfg_globals s a"

definition insertGlobalVariable ::
  "state \<Rightarrow> vid \<Rightarrow> addr \<Rightarrow> bool \<Rightarrow> string \<Rightarrow> string \<Rightarrow> state" where
  "insertGlobalVariable s g a isFromDebug realName cryptoDesc =
     (let co = \<lparr>co_handle = Some g,
                co_name = (case lookup (globals s) g of None \<Rightarrow> realName | Some gv \<Rightarrow> gname gv),
                co_storage = GlobalAddr a,
                co_type = map_option gty (lookup (globals s) g),
                co_crypto = cryptoDesc, co_from_debug = isFromDebug, co_wide = False\<rparr>
      in s\<lparr>cfg_globals := (cfg_globals s)(a \<mapsto> co),
            cfg_objects := (cfg_objects s)(g \<mapsto> co)\<rparr>)"

subsection \<open>Initializer cycles\<close>

text \<open>The loop of \<open>detectGlobalVariableInitializerCycle\<close>: follow initializers that are
  themselves global variables until the global under construction is met (\<open>True\<close>) or the
  chain ends (\<open>False\<close>). On a chain that runs in a circle without meeting that global
  the loop does not end, and the result is \<open>None\<close>.\<close>

partial_function (option) initializerChainReaches :: "state \<Rightarrow> vid \<Rightarrow> vid \<Rightarrow> bool option" where
  "initializerChainReaches s gv cgv =
     (if cgv = gv then Some True
      else (case lookup (globals s) cgv of
              None \<Rightarrow> Some False
            | Some g \<Rightarrow>
                (case ginit g of
                   Some (CGlobal h) \<Rightarrow> initializerChainReaches s gv h
                 | _ \<Rightarrow> Some False)))"

definition detectGlobalVariableInitializerCycle ::
  "state \<Rightarrow> vid option \<Rightarrow> const option \<Rightarrow> image option \<Rightarrow> addr option
     \<Rightarrow> const option option" where
  "detectGlobalVariableInitializerCycle s gvo co objfo addro =
     (case (gvo, co, objfo, addro) of
        (Some gv, Some c, Some objf, Some a) \<Rightarrow>
          (if c = CGlobal gv then Some (getConstantTyped objf (default_type s) a)
           else (case c of
                   CGlobal cgv \<Rightarrow>
                     (case initializerChainReaches s gv cgv of
                        None \<Rightarrow> None
                      | Some True \<Rightarrow> Some (getConstantTyped objf (default_type s) a)
                      | Some False \<Rightarrow> Some (Some c))
                 | _ \<Rightarrow> Some (Some c)))
      | _ \<Rightarrow> Some None)"

subsection \<open>May a global be created at an address?\<close>

text \<open>Addresses are 64-bit: sums and differences wrap around.\<close>

definition addr_add :: "addr \<Rightarrow> nat \<Rightarrow> addr" where
  "addr_add a n = (a + n) mod 2 ^ 64"

definition addr_sub :: "addr \<Rightarrow> nat \<Rightarrow> addr" where
  "addr_sub a n = (a + 2 ^ 64 - n mod 2 ^ 64) mod 2 ^ 64"

definition wordAddressesData :: "image \<Rightarrow> addr \<Rightarrow> bool" where
  "wordAddressesData objf a =
     (case getWord objf a of None \<Rightarrow> False | Some val \<Rightarrow> hasDataOnAddress objf val)"

definition globalVariableCanBeCreated ::
  "state \<Rightarrow> image option \<Rightarrow> addr option \<Rightarrow> bool \<Rightarrow> bool" where
  "globalVariableCanBeCreated s objfo addro strict =
     (case (objfo, addro) of
        (Some objf, Some a) \<Rightarrow>
          (if \<not> hasDataOnAddress objf a then False
           else if (cfg_functions s a \<noteq> None \<or> isCodeSegment objf a)
                   \<and> \<not> (case getNTBS objf a of None \<Rightarrow> False | Some str \<Rightarrow> isNiceString objf str)
           then (if wordAddressesData objf a then True
                 else if wordAddressesData objf (addr_add a (getBytesPerWord objf)) then True
                 else if wordAddressesData objf (addr_sub a (getBytesPerWord objf)) then True
                 else if (arch_arm_or_thumb s \<or> arch_pic32 s) \<and> \<not> strict then True
                 else False)
           else True)
      | _ \<Rightarrow> False)"

subsection \<open>\<open>getGlobalVariable\<close>\<close>

text \<open>The type, the initializer read for it, the name, the real name and the
  from-debug flag, as the debug information, an existing configuration entry and a
  crypto pattern set them, in this order.\<close>

record gdecl =
  gd_type :: ty
  gd_init :: "const option"
  gd_name :: string
  gd_real :: string
  gd_debug :: bool
  gd_crypto :: string

definition fromDebug :: "image \<Rightarrow> debugformat option \<Rightarrow> addr \<Rightarrow> gdecl \<Rightarrow> gdecl" where
  "fromDebug objf dbgf a d =
     (case (case dbgf of None \<Rightarrow> None | Some getGlobalVar \<Rightarrow> getGlobalVar a) of
        None \<Rightarrow> d
      | Some dgv \<Rightarrow>
          (let t = (case dv_type dgv of Some dt \<Rightarrow> dt | None \<Rightarrow> gd_type d)
           in d\<lparr>gd_type := t, gd_init := getConstantTyped objf t a, gd_name := dv_name dgv,
                 gd_real := dv_name dgv, gd_debug := True\<rparr>))"

definition fromConfig :: "state \<Rightarrow> image \<Rightarrow> addr \<Rightarrow> gdecl \<Rightarrow> gdecl" where
  "fromConfig s objf a d =
     (case getConfigGlobalVariable s a of
        None \<Rightarrow> d
      | Some cgv \<Rightarrow>
          (let t = (case co_type cgv of Some dt \<Rightarrow> dt | None \<Rightarrow> gd_type d)
           in d\<lparr>gd_type := t, gd_init := getConstantTyped objf t a, gd_name := co_name cgv,
                 gd_real := co_name cgv, gd_debug := True\<rparr>))"

definition fromCrypto :: "state \<Rightarrow> image \<Rightarrow> addr \<Rightarrow> gdecl \<Rightarrow> gdecl" where
  "fromCrypto s objf a d =
     (case cfg_crypto s a of
        None \<Rightarrow> d
      | Some (cryptoName, cryptoDesc, cryptoType) \<Rightarrow>
          (if \<not> gd_debug d
           then d\<lparr>gd_type := cryptoType, gd_init := getConstantTyped objf cryptoType a,
                   gd_name := cryptoName, gd_real := cryptoName, gd_debug := True,
                   gd_crypto := cryptoDesc\<rparr>
           else d\<lparr>gd_crypto := cryptoDesc\<rparr>))"

definition declareGlobal ::
  "state \<Rightarrow> image \<Rightarrow> debugformat option \<Rightarrow> addr \<Rightarrow> string \<Rightarrow> gdecl" where
  "declareGlobal s objf dbgf a name =
     fromCrypto s objf a (fromConfig s objf a (fromDebug objf dbgf a
       \<lparr>gd_type = default_type s, gd_init = None, gd_name = name, gd_real = [],
        gd_debug = False, gd_crypto = []\<rparr>))"

text \<open>The branch of \<open>getGlobalVariable\<close> taken when no initializer was read for the chosen
  type: \<open>gv\<close> is the global just created in \<open>s\<close>.\<close>

definition rebuildFromImage ::
  "state \<Rightarrow> image \<Rightarrow> addr \<Rightarrow> gdecl \<Rightarrow> bool \<Rightarrow> vid
     \<Rightarrow> (error + (vid option \<times> state)) option" where
  "rebuildFromImage s objf a d isConst gv =
     (case detectGlobalVariableInitializerCycle s (Some gv) (getConstantAuto objf s a)
             (Some objf) (Some a) of
        None \<Rightarrow> None
      | Some None \<Rightarrow>
          Some (Inr (None, insertGlobalVariable s gv a (gd_debug d) (gd_real d) (gd_crypto d)))
      | Some (Some c) \<Rightarrow>
          Some
           (case ctype s c of
              None \<Rightarrow> Inl NullDeref
            | Some ct \<Rightarrow>
                (case newGlobal s \<lparr>gty = ct, ginit = Some c, gconst = isConst,
                                    gname = gd_name d\<rparr> of
                   Inl e \<Rightarrow> Inl e
                 | Inr (ngv, s1) \<Rightarrow>
                     (case convertConstantToType s1 (Some (CGlobal ngv))
                             (ctype s1 (CGlobal gv)) of
                        Inl e \<Rightarrow> Inl e
                      | Inr (None, s2) \<Rightarrow> Inl NullDeref
                      | Inr (Some conv, s2) \<Rightarrow>
                          (case eraseGlobal
                                  (if conv \<noteq> CGlobal ngv then replaceGlobalUses s2 gv conv
                                   else s2) gv of
                             Inl e \<Rightarrow> Inl e
                           | Inr s3 \<Rightarrow>
                               Inr (Some ngv,
                                    insertGlobalVariable s3 ngv a (gd_debug d) (gd_real d)
                                      (gd_crypto d)))))))"

definition getGlobalVariable ::
  "state \<Rightarrow> image option \<Rightarrow> debugformat option \<Rightarrow> addr option \<Rightarrow> bool \<Rightarrow> string
     \<Rightarrow> (error + (vid option \<times> state)) option" where
  "getGlobalVariable s objfo dbgf addro strict name =
     (if \<not> globalVariableCanBeCreated s objfo addro strict then Some (Inr (None, s))
      else (case (objfo, addro) of
         (Some objf, Some a) \<Rightarrow>
           (case getLlvmGlobalVariable s (appendHex objf name a) a of
              Some gv \<Rightarrow> Some (Inr (Some gv, s))
            | None \<Rightarrow>
                (let d = declareGlobal s objf dbgf a (appendHex objf name a);
                     isConst = hasReadOnlyDataOnAddress objf a
                 in case newGlobal s \<lparr>gty = gd_type d, ginit = gd_init d, gconst = isConst,
                                       gname = gd_name d\<rparr> of
                      Inl e \<Rightarrow> Some (Inl e)
                    | Inr (gv, s1) \<Rightarrow>
                        (if gd_init d = None then rebuildFromImage s1 objf a d isConst gv
                         else Some (Inr (Some gv,
                                         insertGlobalVariable s1 gv a (gd_debug d) (gd_real d)
                                           (gd_crypto d))))))
       | _ \<Rightarrow> Some (Inl NullDeref)))"

subsection \<open>Reading the outcome of a call\<close>

definition returned :: "(error + ('a \<times> state)) option \<Rightarrow> 'a option" where
  "returned r = (case r of Some (Inr (v, s')) \<Rightarrow> Some v | _ \<Rightarrow> None)"

definition state_after :: "(error + ('a \<times> state)) option \<Rightarrow> state option" where
  "state_after r = (case r of Some (Inr (v, s')) \<Rightarrow> Some s' | _ \<Rightarrow> None)"

definition module_globals :: "state \<Rightarrow> vid list" where
  "module_globals s = map fst (globals s)"

definition config_handle_at :: "state \<Rightarrow> addr \<Rightarrow> vid option" where
  "config_handle_at s a = (case cfg_globals s a of None \<Rightarrow> None | Some co \<Rightarrow> co_handle co)"

text \<open>The module's globals and the handle the configuration holds for an address, after
  a call that returned.\<close>

definition module_globals_after :: "(error + ('a \<times> state)) option \<Rightarrow> vid list option" where
  "module_globals_after r = map_option module_globals (state_after r)"

definition config_handle_after :: "(error + ('a \<times> state)) option \<Rightarrow> addr \<Rightarrow> vid option" where
  "config_handle_after r a =
     (case state_after r of None \<Rightarrow> None | Some s' \<Rightarrow> config_handle_at s' a)"

text \<open>Two successive calls with the same arguments: the two results.\<close>

definition getGlobalVariableTwice ::
  "state \<Rightarrow> image option \<Rightarrow> debugformat option \<Rightarrow> addr option \<Rightarrow> bool \<Rightarrow> string
     \<Rightarrow> (vid option \<times> vid option) option" where
  "getGlobalVariableTwice s objfo dbgf addro strict name =
     (case getGlobalVariable s objfo dbgf addro strict name of
        Some (Inr (r1, s1)) \<Rightarrow>
          (case getGlobalVariable s1 objfo dbgf addro strict name of
             Some (Inr (r2, s2)) \<Rightarrow> Some (r1, r2)
           | _ \<Rightarrow> None)
      | _ \<Rightarrow> None)"

text \<open>No suitable initializer can be read at the address: none for the chosen type, and
  none from the image after the check for a cycle.\<close>

definition initializerUnreadable ::
  "state \<Rightarrow> image \<Rightarrow> debugformat option \<Rightarrow> addr \<Rightarrow> string \<Rightarrow> bool" where
  "initializerUnreadable s objf dbgf a name =
     (let d = declareGlobal s objf dbgf a (appendHex objf name a)
      in gd_init d = None \<and>
         (case newGlobal s \<lparr>gty = gd_type d, ginit = None,
                             gconst = hasReadOnlyDataOnAddress objf a, gname = gd_name d\<rparr> of
            Inl e \<Rightarrow> False
          | Inr (gv, s1) \<Rightarrow>
              detectGlobalVariableInitializerCycle s1 (Some gv) (getConstantAuto objf s1 a)
                (Some objf) (Some a) = Some None))"

text \<open>Every global of the module that carries the name \<open>n\<close> is \<open>g\<close>; and two states
  agree on the tables the creation check reads.\<close>

definition named_only :: "state \<Rightarrow> string \<Rightarrow> vid \<Rightarrow> bool" where
  "named_only s n g = (\<forall>(h, gv) \<in> set (globals s). gname gv = n \<longrightarrow> h = g)"

definition same_tables :: "state \<Rightarrow> state \<Rightarrow> bool" where
  "same_tables s s' = (cfg_functions s' = cfg_functions s
     \<and> arch_arm_or_thumb s' = arch_arm_or_thumb s \<and> arch_pic32 s' = arch_pic32 s)"

subsection \<open>Initializers that reference their own global\<close>

definition initializer_of :: "state \<Rightarrow> vid \<Rightarrow> const option" where
  "initializer_of s g = (case lookup (globals s) g of None \<Rightarrow> None | Some gv \<Rightarrow> ginit gv)"

definition init_refs :: "state \<Rightarrow> vid \<Rightarrow> vid list" where
  "init_refs s g = (case initializer_of s g of None \<Rightarrow> [] | Some c \<Rightarrow> crefs c)"

definition ref_rel :: "state \<Rightarrow> (vid \<times> vid) set" where
  "ref_rel s = {(g, h). h \<in> set (init_refs s g)}"

text \<open>The initializer of \<open>g\<close> references \<open>g\<close>, directly or through the initializers of
  other globals.\<close>

definition self_referencing :: "state \<Rightarrow> vid \<Rightarrow> bool" where
  "self_referencing s g = ((g, g) \<in> (ref_rel s)\<^sup>+)"

text \<open>The initializer of \<open>g\<close>, and whether it references \<open>g\<close>, after a call that
  returned.\<close>

definition initializer_after :: "(error + ('a \<times> state)) option \<Rightarrow> vid \<Rightarrow> const option" where
  "initializer_after r g =
     (case state_after r of None \<Rightarrow> None | Some s' \<Rightarrow> initializer_of s' g)"

definition self_referencing_after :: "(error + ('a \<times> state)) option \<Rightarrow> vid \<Rightarrow> bool" where
  "self_referencing_after r g =
     (case state_after r of None \<Rightarrow> False | Some s' \<Rightarrow> self_referencing s' g)"

text \<open>A well-formed module: the handles of its globals, and the handles their
  initializers mention, have been created.\<close>

definition handles_fresh :: "state \<Rightarrow> bool" where
  "handles_fresh s =
     (\<forall>(g, gv) \<in> set (globals s). g < next_id s \<and>
        (\<forall>c. ginit gv = Some c \<longrightarrow> (\<forall>h \<in> set (crefs c). h < next_id s)))"

text \<open>The state in which the image is asked for the initializer: the module with the
  global under construction, whose handle is \<open>next_id s\<close>.\<close>

definition underConstruction ::
  "state \<Rightarrow> image \<Rightarrow> debugformat option \<Rightarrow> addr \<Rightarrow> string \<Rightarrow> state" where
  "underConstruction s objf dbgf a name =
     (let d = declareGlobal s objf dbgf a (appendHex objf name a)
      in s\<lparr>globals := globals s @ [(next_id s,
              \<lparr>gty = gd_type d, ginit = gd_init d,
                 gconst = hasReadOnlyDataOnAddress objf a, gname = gd_name d\<rparr>)],
            next_id := Suc (next_id s)\<rparr>)"

text \<open>What the image may yield: a typed read mentions only globals that existed before
  the call; the read that sees the module mentions the global under construction only by
  being that global itself.\<close>

definition image_reads_ok ::
  "state \<Rightarrow> image \<Rightarrow> debugformat option \<Rightarrow> addr \<Rightarrow> string \<Rightarrow> bool" where
  "image_reads_ok s objf dbgf a name =
     ((\<forall>t c. getConstantTyped objf t a = Some c \<longrightarrow> (\<forall>h \<in> set (crefs c). h < next_id s))
      \<and> (\<forall>c. getConstantAuto objf (underConstruction s objf dbgf a name) a = Some c \<longrightarrow>
             c = CGlobal (next_id s) \<or> (\<forall>h \<in> set (crefs c). h < next_id s)))"

text \<open>The constant read from the image is the global under construction itself.\<close>

definition readsItself ::
  "state \<Rightarrow> image \<Rightarrow> debugformat option \<Rightarrow> addr \<Rightarrow> string \<Rightarrow> bool" where
  "readsItself s objf dbgf a name =
     (gd_init (declareGlobal s objf dbgf a (appendHex objf name a)) = None
      \<and> getConstantAuto objf (underConstruction s objf dbgf a name) a
            = Some (CGlobal (next_id s)))"

text \<open>Every handle an initializer of the list mentions is below \<open>n\<close>.\<close>

definition refs_below :: "nat \<Rightarrow> (vid \<times> gvar) list \<Rightarrow> bool" where
  "refs_below n gs =
     (\<forall>(g, gv) \<in> set gs. \<forall>c. ginit gv = Some c \<longrightarrow> (\<forall>h \<in> set (crefs c). h < n))"

section \<open>Localize\<close>

text \<open>\<open>definition->getFunction()\<close>: the function whose blocks hold the instruction.\<close>

definition getFunction :: "state \<Rightarrow> vid \<Rightarrow> (vid \<times> func) option" where
  "getFunction s i = find (\<lambda>(f, fn). list_ex (\<lambda>blk. i \<in> set blk) (fblocks fn)) (funcs s)"

text \<open>\<open>f->getEntryBlock().front()\<close>.\<close>

definition entryFront :: "func \<Rightarrow> vid option" where
  "entryFront fn = (case fblocks fn of (i # _) # _ \<Rightarrow> Some i | _ \<Rightarrow> None)"

text \<open>\<open>i->eraseFromParent()\<close> for an instruction: it leaves its block and is destroyed.\<close>

definition eraseInst :: "state \<Rightarrow> vid \<Rightarrow> state" where
  "eraseInst s i = (map_blocks (filter (\<lambda>x. x \<noteq> i)) s)\<lparr>insts := (insts s)(i := None)\<rparr>"

text \<open>\<open>u->replaceUsesOfWith(from, to)\<close>: the operands of \<open>u\<close> that are \<open>from\<close> become \<open>to\<close>.
  The instruction must still exist.\<close>

definition replaceUsesOfWith :: "state \<Rightarrow> vid \<Rightarrow> val \<Rightarrow> val \<Rightarrow> error + state" where
  "replaceUsesOfWith s u from to =
     (case insts s u of
        None \<Rightarrow> Inl NullDeref
      | Some ins \<Rightarrow>
          Inr (s\<lparr>insts := (insts s)(u \<mapsto> ins\<lparr>ops := map (\<lambda>x. if x = from then to else x) (ops ins)\<rparr>)\<rparr>))"

fun replaceInAll :: "state \<Rightarrow> vid list \<Rightarrow> val \<Rightarrow> val \<Rightarrow> error + state" where
  "replaceInAll s [] from to = Inr s"
| "replaceInAll s (u # us) from to =
     (case replaceUsesOfWith s u from to of
        Inl e \<Rightarrow> Inl e
      | Inr s1 \<Rightarrow> replaceInAll s1 us from to)"

definition localize :: "state \<Rightarrow> vid \<Rightarrow> vid list \<Rightarrow> error + (bool \<times> state)" where
  "localize s definition uses =
     (case insts s definition of
        None \<Rightarrow> Inl NullDeref
      | Some st \<Rightarrow>
          (case (opc st, ops st) of
             (Store, [v, ptr]) \<Rightarrow>
               (case getFunction s definition of
                  None \<Rightarrow> Inl NullDeref
                | Some (f, fn) \<Rightarrow>
                    (case type_of s ptr of
                       Some (Pointer t) \<Rightarrow>
                         (case newInst s \<lparr>opc = Alloca t, ops = [], ity = Pointer t, iname = []\<rparr> of
                            (local, s1) \<Rightarrow>
                              (case entryFront fn of
                                 None \<Rightarrow> Inl NullDeref
                               | Some front \<Rightarrow>
                                   (case insertBefore s1 local front of
                                      Inl e \<Rightarrow> Inl e
                                    | Inr s2 \<Rightarrow>
                                        (case newInst s2 \<lparr>opc = Store, ops = [v, VInst local],
                                                           ity = Void, iname = []\<rparr> of
                                           (ns, s3) \<Rightarrow>
                                             (case insertBefore s3 ns definition of
                                                Inl e \<Rightarrow> Inl e
                                              | Inr s4 \<Rightarrow>
                                                  (case replaceInAll (eraseInst s4 definition) uses
                                                          ptr (VInst local) of
                                                     Inl e \<Rightarrow> Inl e
                                                   | Inr s5 \<Rightarrow> Inr (True, s5)))))))
                     | _ \<Rightarrow> Inl AssertFailed))
           | _ \<Rightarrow> Inl AssertFailed))"

text \<open>The value \<open>p\<close> is an operand of the instruction \<open>i\<close>, and \<open>i\<close> stands in a block.\<close>

definition operand_occurs :: "state \<Rightarrow> vid \<Rightarrow> val \<Rightarrow> bool" where
  "operand_occurs s i p =
     (in_layout s i \<and> (case insts s i of None \<Rightarrow> False | Some ins \<Rightarrow> p \<in> set (ops ins)))"

definition operand_occurs_after :: "error + (bool \<times> state) \<Rightarrow> vid \<Rightarrow> val \<Rightarrow> bool" where
  "operand_occurs_after r i p =
     (case r of Inr (b, s') \<Rightarrow> operand_occurs s' i p | Inl e \<Rightarrow> False)"

text \<open>No handle at or above \<open>next_id\<close> is in use yet.\<close>

definition ids_fresh :: "state \<Rightarrow> bool" where
  "ids_fresh s = (\<forall>i. next_id s \<le> i \<longrightarrow> insts s i = None \<and> \<not> in_layout s i)"

text \<open>The layout of all functions, block by block.\<close>

definition layout :: "state \<Rightarrow> vid list list list" where
  "layout s = map (\<lambda>(f, fn). fblocks fn) (funcs s)"

text \<open>An instruction with its operands \<open>from\<close> replaced by \<open>to\<close>.\<close>

definition patch :: "val \<Rightarrow> val \<Rightarrow> inst \<Rightarrow> inst" where
  "patch from to ins = ins\<lparr>ops := map (\<lambda>x. if x = from then to else x) (ops ins)\<rparr>"

section \<open>Changing the type of an object\<close>

subsection \<open>Users\<close>







subsection \<open>Replacing and erasing\<close>








subsection \<open>The declaration\<close>







subsection \<open>One user\<close>











subsection \<open>\<open>changeObjectType\<close>\<close>



subsection \<open>Typing kept across a change\<close>














subsection \<open>What is left of the old object\<close>





subsection \<open>The loop over the users\<close>










subsection \<open>Reading the outcome of a change\<close>




section \<open>Concrete inputs\<close>

text \<open>A module of one function \<open>f(double)\<close> whose entry block holds one stack slot
  \<open>%0 = alloca i32\<close>.\<close>

definition ex_alloca :: inst where
  "ex_alloca = \<lparr>opc = Alloca (Integer 32), ops = [], ity = Pointer (Integer 32), iname = ''x''\<rparr>"

definition ex_state :: state where
  "ex_state =
     \<lparr>insts = (\<lambda>_. None)(0 \<mapsto> ex_alloca),
      funcs = [(0, \<lparr>fret = Void, fparams = [Float Double], fblocks = [[0]], fname = ''f''\<rparr>)],
      globals = [],
      default_type = Integer 32,
      cfg_objects = (\<lambda>_. None),
      cfg_globals = (\<lambda>_. None),
      cfg_stack = (\<lambda>_. None),
      cfg_functions = (\<lambda>_. None),
      cfg_crypto = (\<lambda>_. None),
      arch_arm_or_thumb = False,
      arch_pic32 = False,
      next_id = 1\<rparr>"

text \<open>An image with data at address \<open>0x1000\<close> only, where no constant can be read.\<close>

function hexdigits :: "nat \<Rightarrow> string" where
  "hexdigits n =
     (if n < 16 then [''0123456789abcdef'' ! n]
      else hexdigits (n div 16) @ [''0123456789abcdef'' ! (n mod 16)])"
  by pat_completeness auto
termination
  by (relation "measure id") auto

definition ex_image :: image where
  "ex_image =
     \<lparr>hasDataOnAddress = (\<lambda>a. a = 4096),
      hasReadOnlyDataOnAddress = (\<lambda>a. False),
      isCodeSegment = (\<lambda>a. False),
      getNTBS = (\<lambda>a. None),
      getWord = (\<lambda>a. None),
      getBytesPerWord = 4,
      getConstantTyped = (\<lambda>t a. None),
      getConstantWide = (\<lambda>t a w. None),
      getConstantAuto = (\<lambda>s a. None),
      isNiceString = (\<lambda>str. False),
      appendHex = (\<lambda>n a. n @ ''_'' @ hexdigits a)\<rparr>"

text \<open>The same image with the word 7 readable at every address; and an image whose word
  at \<open>0x1000\<close> is \<open>0x1000\<close>, a pointer back to the address, so that the read that sees
  the module yields the global named for that address.\<close>

definition ex_image_word :: image where
  "ex_image_word = ex_image\<lparr>getConstantAuto := (\<lambda>s a. Some (CInt (Integer 32) 7))\<rparr>"

definition ex_image_self :: image where
  "ex_image_self =
     ex_image\<lparr>getConstantTyped := (\<lambda>t a. Some (CInt t 4096)),
              getConstantAuto :=
                (\<lambda>s a. map_option (\<lambda>(g, gv). CGlobal g)
                         (find (\<lambda>(g, gv). gname gv = ''g_1000'') (globals s)))\<rparr>"

text \<open>An image where no typed constant can be read and whose read that sees the module
  yields the global named for address \<open>0x1000\<close> under a cast to \<open>i8*\<close>.\<close>

definition ex_image_cast :: image where
  "ex_image_cast =
     ex_image\<lparr>getConstantAuto :=
                (\<lambda>s a. map_option (\<lambda>(g, gv). CCast BitCast (CGlobal g) (Pointer (Integer 8)))
                         (find (\<lambda>(g, gv). gname gv = ''g_1000'') (globals s)))\<rparr>"

text \<open>A module with the global \<open>@10 : i32\<close> and a function whose only block is
  \<open>store i32 5, @10; %1 = load @10\<close>.\<close>

definition ex_store_state :: state where
  "ex_store_state =
     ex_state\<lparr>insts := (\<lambda>_. None)
                 (0 \<mapsto> \<lparr>opc = Store, ops = [VConst (CInt (Integer 32) 5), VConst (CGlobal 10)],
                         ity = Void, iname = []\<rparr>,
                  1 \<mapsto> \<lparr>opc = Load, ops = [VConst (CGlobal 10)], ity = Integer 32, iname = []\<rparr>),
              funcs := [(0, \<lparr>fret = Void, fparams = [], fblocks = [[0, 1]], fname = ''f''\<rparr>)],
              globals := [(10, \<lparr>gty = Integer 32, ginit = None, gconst = False, gname = ''r''\<rparr>)],
              next_id := 11\<rparr>"



section \<open>The type converter: results and their types\<close>


lemma insts_map_blocks [simp]: "insts (map_blocks g s) = insts s"
  by (simp add: map_blocks_def)

lemma insertBeforeAfter_insts:
  "insertBeforeAfter s i b a = Inr s' \<Longrightarrow> insts s' = insts s"
  by (auto simp: insertBeforeAfter_def insertBefore_def insertAfter_def
      split: option.splits if_splits)

lemma placeInst_type:
  "placeInst s ins b a = Inr (Some r, s') \<Longrightarrow> type_of s' r = Some (ity ins)"
  by (auto simp: placeInst_def newInst_def split: sum.splits dest!: insertBeforeAfter_insts)

lemma constCast_type:
  "constCast s oc v t = Inr (Some r, s') \<Longrightarrow> type_of s' r = Some t"
  by (auto simp: constCast_def split: val.splits)

lemma castTo_type:
  "castTo s oc v t b a ce = Inr (Some r, s') \<Longrightarrow> type_of s' r = Some t"
  by (auto simp: castTo_def castInst_def split: if_splits
      dest!: placeInst_type constCast_type)

lemma placeAfterInner_type:
  "placeAfterInner s ins v tmp b a = Inr (Some r, s') \<Longrightarrow> type_of s' r = Some (ity ins)"
  by (auto simp: placeAfterInner_def split: if_splits val.splits dest!: placeInst_type)

lemma convVia_type:
  "typed_results rec \<Longrightarrow> convVia rec s v mid t b a ce = Inr (Some r, s') \<Longrightarrow>
     type_of s' r = Some t"
  unfolding convVia_def typed_results_def
  by (auto split: sum.splits prod.splits)

lemma intToFloat_type:
  "intToFloat rec s v t b a ce = Inr (Some r, s') \<Longrightarrow> type_of s' r = Some t"
  by (auto simp: intToFloat_def castInst_def split: sum.splits option.splits if_splits
      dest!: constCast_type placeAfterInner_type)

lemma floatToInt_type:
  "typed_results rec \<Longrightarrow> floatToInt rec s v vt t b a ce = Inr (Some r, s') \<Longrightarrow>
     type_of s' r = Some t"
  by (auto simp: floatToInt_def split: option.splits if_splits
      dest!: convVia_type castTo_type)

lemma insertAfter_insts: "insertAfter s i a = Inr s' \<Longrightarrow> insts s' = insts s"
  by (auto simp: insertAfter_def split: if_splits)

lemma loadAggregate_type:
  assumes "typed_results rec" and "loadAggregate rec s v t b a ce = Inr (Some r, s')"
  shows "type_of s' r = Some t"
proof -
  from assms(2) obtain l li p ps c s1 et nl s2 where
    r1: "rec s (Some p) (Some (Pointer t)) b a ce = Inr (Some (VInst c), s1)"
    and ty: "type_of s1 (VInst c) = Some (Pointer et)"
    and ni: "newInst s1 \<lparr>opc = Load, ops = [VInst c], ity = et, iname = []\<rparr> = (nl, s2)"
    and ia: "insertAfter s2 nl c = Inr s'" and r: "r = VInst nl"
    by (auto simp: loadAggregate_def
        split: val.splits option.splits list.splits if_splits sum.splits prod.splits ty.splits)
  from assms(1) r1 have "type_of s1 (VInst c) = Some (Pointer t)"
    unfolding typed_results_def by blast
  with ty have "et = t" by auto
  with ni ia r show ?thesis
    by (auto simp: newInst_def dest!: insertAfter_insts)
qed

lemma fromAggregate_type:
  "typed_results rec \<Longrightarrow> fromAggregate rec s v vt t b a ce = Inr (Some r, s') \<Longrightarrow>
     type_of s' r = Some t"
  unfolding fromAggregate_def typed_results_def
  by (auto split: option.splits sum.splits prod.splits)

lemma toComposite_type:
  "toComposite rec s v t b a ce = Inr (Some r, s') \<Longrightarrow> type_of s' r = Some t"
  by (auto simp: toComposite_def split: option.splits sum.splits prod.splits if_splits val.splits
      dest!: placeAfterInner_type)

lemma convertLadder_type:
  "typed_results rec \<Longrightarrow> type_of s v = Some vt \<Longrightarrow>
   convertLadder rec s v vt t b a ce = Inr (Some r, s') \<Longrightarrow> type_of s' r = Some t"
  unfolding convertLadder_def
  by (simp split: if_splits)
     (blast dest: castTo_type convVia_type intToFloat_type floatToInt_type loadAggregate_type
        fromAggregate_type toComposite_type)+

lemma convertToType_typed: "typed_results (convertToType n)"
proof (induction n)
  case 0
  show ?case by (simp add: typed_results_def)
next
  case (Suc n)
  show ?case
    unfolding typed_results_def
  proof (intro allI impI)
    fix s v t b a ce r s'
    assume h: "convertToType (Suc n) s v (Some t) b a ce = Inr (Some r, s')"
    then obtain v' vt where "v = Some v'" and "type_of s v' = Some vt"
      and "convertLadder (convertToType n) s v' vt t b a ce = Inr (Some r, s')"
      by (auto split: option.splits if_splits)
    with Suc show "type_of s' r = Some t"
      by (auto dest: convertLadder_type)
  qed
qed




lemma convertToType_null: "null_results (convertToType n)"
  by (cases n) (simp_all add: null_results_def)

lemma placeInst_inst: "placeInst s ins b a = Inr (r, s') \<Longrightarrow> \<exists>i. r = Some (VInst i)"
  by (auto simp: placeInst_def split: prod.splits sum.splits)

lemma placeAfterInner_inst:
  "placeAfterInner s ins v tmp b a = Inr (r, s') \<Longrightarrow> \<exists>i. r = Some (VInst i)"
  by (auto simp: placeAfterInner_def split: if_splits val.splits dest!: placeInst_inst)

lemma constCast_nonnull: "constCast s oc v t = Inr (r, s') \<Longrightarrow> r \<noteq> None"
  by (auto simp: constCast_def split: val.splits)

lemma castTo_inst: "castTo s oc v t b a False = Inr (r, s') \<Longrightarrow> \<exists>i. r = Some (VInst i)"
  by (auto simp: castTo_def dest!: placeInst_inst)

lemma castTo_nonnull: "castTo s oc v t b a ce = Inr (r, s') \<Longrightarrow> r \<noteq> None"
  by (auto simp: castTo_def split: if_splits dest!: placeInst_inst constCast_nonnull)

lemma convVia_stages:
  assumes "convVia rec s v mid t b a ce = Inr (r, s')"
  obtains x s1 where "rec s (Some v) (Some mid) b a ce = Inr (x, s1)"
    and "rec s1 x (Some t) b (case x of None \<Rightarrow> None | Some x' \<Rightarrow> asInstruction x') ce
           = Inr (r, s')"
  using assms by (auto simp: convVia_def split: sum.splits prod.splits)

lemma convVia_first_inst:
  assumes "inst_results rec" "nonnull_results rec"
    and "rec s (Some v) (Some mid) b a False = Inr (x, s1)"
    and "type_of s v = Some vt" "vt \<noteq> mid" "anchored b a False"
  shows "\<exists>j. x = Some (VInst j)"
proof -
  from assms(2,3,6) obtain x' where x: "x = Some x'"
    unfolding nonnull_results_def by blast
  with assms(1,3,4,5) show ?thesis
    unfolding inst_results_def by fastforce
qed

lemma convVia_inst:
  assumes "inst_results rec" "null_results rec"
    and "convVia rec s v mid t b a False = Inr (Some r, s')"
    and "type_of s v = Some vt" "vt \<noteq> mid"
  shows "\<exists>i. r = VInst i"
proof -
  from assms(3) obtain x s1 where
    r1: "rec s (Some v) (Some mid) b a False = Inr (x, s1)"
    and r2: "rec s1 x (Some t) b (case x of None \<Rightarrow> None | Some x' \<Rightarrow> asInstruction x') False
              = Inr (Some r, s')"
    by (rule convVia_stages)
  show ?thesis
  proof (cases x)
    case None
    with r2 assms(2) show ?thesis unfolding null_results_def by blast
  next
    case (Some x')
    with r1 assms(1,4,5) obtain j where j: "x' = VInst j"
      unfolding inst_results_def by fastforce
    with r2 Some assms(1) show ?thesis
      unfolding inst_results_def by blast
  qed
qed

lemma convVia_nonnull:
  assumes "inst_results rec" "nonnull_results rec"
    and "convVia rec s v mid t b a ce = Inr (r, s')"
    and "type_of s v = Some vt" "vt \<noteq> mid" "anchored b a ce"
  shows "r \<noteq> None"
proof -
  from assms(3) obtain x s1 where
    r1: "rec s (Some v) (Some mid) b a ce = Inr (x, s1)"
    and r2: "rec s1 x (Some t) b (case x of None \<Rightarrow> None | Some x' \<Rightarrow> asInstruction x') ce
              = Inr (r, s')"
    by (rule convVia_stages)
  from assms(2,6) r1 obtain x' where x: "x = Some x'"
    unfolding nonnull_results_def by blast
  have "anchored b (asInstruction x') ce"
  proof (cases "ce \<or> b \<noteq> None")
    case True
    then show ?thesis by (auto simp: anchored_def)
  next
    case False
    with assms(1,2,4,5,6) r1 obtain j where "x = Some (VInst j)"
      using convVia_first_inst[of rec s v mid b a x s1 vt] by auto
    with x show ?thesis by (auto simp: anchored_def)
  qed
  with assms(2) r2 x show ?thesis
    unfolding nonnull_results_def by (metis option.simps(5))
qed

lemma intToFloat_inst: "intToFloat rec s v t b a False = Inr (r, s') \<Longrightarrow> \<exists>i. r = Some (VInst i)"
  by (auto simp: intToFloat_def split: sum.splits option.splits prod.splits
      dest!: placeAfterInner_inst)

lemma intToFloat_nonnull: "intToFloat rec s v t b a ce = Inr (r, s') \<Longrightarrow> r \<noteq> None"
  by (auto simp: intToFloat_def split: sum.splits option.splits prod.splits if_splits
      dest!: placeAfterInner_inst constCast_nonnull)

lemma floatToInt_inst:
  assumes "inst_results rec" "null_results rec"
    and "floatToInt rec s v vt t b a False = Inr (Some r, s')"
    and "type_of s v = Some vt" "isFloatingPointTy vt"
  shows "\<exists>i. r = VInst i"
proof (cases "floatOfWidth (getPrimitiveSizeInBits t)")
  case None
  with assms(3) have "convVia rec s v (Integer 32) t b a False = Inr (Some r, s')"
    by (simp add: floatToInt_def)
  moreover from assms(5) have "vt \<noteq> Integer 32" by auto
  ultimately show ?thesis using assms(1,2,4) by (blast dest: convVia_inst)
next
  case (Some k)
  show ?thesis
  proof (cases "vt = Float k")
    case True
    with Some assms(3) show ?thesis by (auto simp: floatToInt_def dest!: castTo_inst)
  next
    case False
    with Some assms(3) have "convVia rec s v (Float k) t b a False = Inr (Some r, s')"
      by (simp add: floatToInt_def)
    with False assms(1,2,4) show ?thesis by (blast dest: convVia_inst)
  qed
qed

lemma floatToInt_nonnull:
  assumes "inst_results rec" "nonnull_results rec"
    and "floatToInt rec s v vt t b a ce = Inr (r, s')"
    and "type_of s v = Some vt" "isFloatingPointTy vt" "anchored b a ce"
  shows "r \<noteq> None"
proof (cases "floatOfWidth (getPrimitiveSizeInBits t)")
  case None
  with assms(3) have "convVia rec s v (Integer 32) t b a ce = Inr (r, s')"
    by (simp add: floatToInt_def)
  moreover from assms(5) have "vt \<noteq> Integer 32" by auto
  ultimately show ?thesis using assms(1,2,4,6) by (blast dest: convVia_nonnull)
next
  case (Some k)
  show ?thesis
  proof (cases "vt = Float k")
    case True
    with Some assms(3) show ?thesis by (auto simp: floatToInt_def dest!: castTo_nonnull)
  next
    case False
    with Some assms(3) have "convVia rec s v (Float k) t b a ce = Inr (r, s')"
      by (simp add: floatToInt_def)
    with False assms(1,2,4,6) show ?thesis by (blast dest: convVia_nonnull)
  qed
qed

lemma loadAggregate_inst:
  "loadAggregate rec s v t b a ce = Inr (r, s') \<Longrightarrow> \<exists>i. r = Some (VInst i)"
  by (auto simp: loadAggregate_def
      split: val.splits option.splits list.splits if_splits sum.splits prod.splits ty.splits)

lemma fromAggregate_stages:
  assumes "fromAggregate rec s v vt t b a ce = Inr (r, s')"
  obtains x s1 where "rec s1 (Some x) (Some t) b (asInstruction x) ce = Inr (r, s')"
    and "ce \<or> (\<exists>i. x = VInst i)"
  using assms
  by (auto simp: fromAggregate_def split: option.splits sum.splits prod.splits if_splits val.splits
      dest!: placeInst_inst)

lemma fromAggregate_inst:
  assumes "inst_results rec" and "fromAggregate rec s v vt t b a False = Inr (Some r, s')"
  shows "\<exists>i. r = VInst i"
proof -
  from assms(2) obtain x s1 where "rec s1 (Some x) (Some t) b (asInstruction x) False = Inr (Some r, s')"
    and "\<exists>i. x = VInst i"
    by (rule fromAggregate_stages) auto
  with assms(1) show ?thesis unfolding inst_results_def by blast
qed

lemma fromAggregate_nonnull:
  assumes "nonnull_results rec" and "fromAggregate rec s v vt t b a ce = Inr (r, s')"
  shows "r \<noteq> None"
proof -
  from assms(2) obtain x s1 where r: "rec s1 (Some x) (Some t) b (asInstruction x) ce = Inr (r, s')"
    and "ce \<or> (\<exists>i. x = VInst i)"
    by (rule fromAggregate_stages)
  then have "anchored b (asInstruction x) ce" by (auto simp: anchored_def)
  with assms(1) r show ?thesis unfolding nonnull_results_def by blast
qed

lemma toComposite_inst: "toComposite rec s v t b a False = Inr (r, s') \<Longrightarrow> \<exists>i. r = Some (VInst i)"
  by (auto simp: toComposite_def split: option.splits sum.splits prod.splits if_splits
      dest!: placeAfterInner_inst)

lemma toComposite_nonnull: "toComposite rec s v t b a ce = Inr (r, s') \<Longrightarrow> r \<noteq> None"
  by (auto simp: toComposite_def split: option.splits sum.splits prod.splits if_splits val.splits
      dest!: placeAfterInner_inst)

lemma convertLadder_cases [consumes 2, case_names cast i2f p2f f2i f2p load agg comp unsupported]:
  assumes "convertLadder rec s v vt t b a ce = res" and "vt \<noteq> t"
  obtains oc where "castTo s oc v t b a ce = res"
  | "isIntegerTy vt" and "isFloatingPointTy t" and "intToFloat rec s v t b a ce = res"
  | "isPointerTy vt" and "isFloatingPointTy t"
      and "convVia rec s v (Integer (getPrimitiveSizeInBits t)) t b a ce = res"
  | "isFloatingPointTy vt" and "isIntegerTy t" and "floatToInt rec s v vt t b a ce = res"
  | "isFloatingPointTy vt" and "isPointerTy t"
      and "convVia rec s v (Integer (getPrimitiveSizeInBits vt)) t b a ce = res"
  | "\<not> ce" and "isLoadInst s v" and "isAggregateType vt"
      and "loadAggregate rec s v t b a ce = res"
  | "isAggregateType vt" and "fromAggregate rec s v vt t b a ce = res"
  | "\<not> isAggregateType vt" and "isAggregateType t" and "toComposite rec s v t b a ce = res"
  | "res = Inl UnsupportedConversion"
  using assms unfolding convertLadder_def
  by (simp split: if_splits)

lemma convertLadder_inst:
  assumes "inst_results rec" "null_results rec" "type_of s v = Some vt"
    and "convertLadder rec s v vt t b a False = Inr (Some r, s')"
  shows "(r = v \<and> type_of s v = Some t) \<or> (\<exists>i. r = VInst i)"
proof (cases "vt = t")
  case True
  with assms(3,4) show ?thesis by (simp add: convertLadder_def)
next
  case False
  from assms(4) False have "\<exists>i. r = VInst i"
  proof (cases rule: convertLadder_cases)
    case (cast oc)
    then show ?thesis by (auto dest!: castTo_inst)
  next
    case i2f
    then show ?thesis by (auto dest!: intToFloat_inst)
  next
    case p2f
    then have "vt \<noteq> Integer (getPrimitiveSizeInBits t)" by (cases vt) auto
    with p2f assms(1,2,3) show ?thesis by (blast dest: convVia_inst)
  next
    case f2i
    with assms(1,2,3) show ?thesis by (blast dest: floatToInt_inst)
  next
    case f2p
    then have "vt \<noteq> Integer (getPrimitiveSizeInBits vt)" by (cases vt) auto
    with f2p assms(1,2,3) show ?thesis by (blast dest: convVia_inst)
  next
    case load
    then show ?thesis by (auto dest!: loadAggregate_inst)
  next
    case agg
    with assms(1) show ?thesis by (blast dest: fromAggregate_inst)
  next
    case comp
    then show ?thesis by (auto dest!: toComposite_inst)
  next
    case unsupported
    then show ?thesis by simp
  qed
  then show ?thesis ..
qed

lemma convertLadder_nonnull:
  assumes "inst_results rec" "nonnull_results rec" "type_of s v = Some vt"
    and "convertLadder rec s v vt t b a ce = Inr (r, s')" and "anchored b a ce"
  shows "r \<noteq> None"
proof (cases "vt = t")
  case True
  with assms(4) show ?thesis by (auto simp: convertLadder_def)
next
  case False
  from assms(4) False show ?thesis
  proof (cases rule: convertLadder_cases)
    case (cast oc)
    then show ?thesis by (auto dest!: castTo_nonnull)
  next
    case i2f
    then show ?thesis by (auto dest!: intToFloat_nonnull)
  next
    case p2f
    then have "vt \<noteq> Integer (getPrimitiveSizeInBits t)" by (cases vt) auto
    with p2f assms(1,2,3,5) show ?thesis by (blast dest: convVia_nonnull)
  next
    case f2i
    with assms(1,2,3,5) show ?thesis by (blast dest: floatToInt_nonnull)
  next
    case f2p
    then have "vt \<noteq> Integer (getPrimitiveSizeInBits vt)" by (cases vt) auto
    with f2p assms(1,2,3,5) show ?thesis by (blast dest: convVia_nonnull)
  next
    case load
    then show ?thesis by (auto dest!: loadAggregate_inst)
  next
    case agg
    with assms(2) show ?thesis by (blast dest: fromAggregate_nonnull)
  next
    case comp
    then show ?thesis by (auto dest!: toComposite_nonnull)
  next
    case unsupported
    then show ?thesis by simp
  qed
qed

lemma convertToType_Suc:
  "convertToType (Suc n) s (Some v) (Some t) b a ce = Inr (r, s') \<Longrightarrow>
     (r = None \<and> \<not> anchored b a ce) \<or>
     (anchored b a ce \<and> (\<exists>vt. type_of s v = Some vt \<and>
        convertLadder (convertToType n) s v vt t b a ce = Inr (r, s')))"
  by (auto simp: anchored_def split: if_splits option.splits)

lemma convertToType_inst: "inst_results (convertToType n)"
proof (induction n)
  case 0
  show ?case by (simp add: inst_results_def)
next
  case (Suc n)
  show ?case
    unfolding inst_results_def
  proof (intro allI impI)
    fix s v t b a r s'
    assume "convertToType (Suc n) s (Some v) (Some t) b a False = Inr (Some r, s')"
    from convertToType_Suc[OF this] obtain vt where "type_of s v = Some vt"
      and "convertLadder (convertToType n) s v vt t b a False = Inr (Some r, s')"
      by auto
    with Suc convertToType_null[of n]
    show "(r = v \<and> type_of s v = Some t) \<or> (\<exists>i. r = VInst i)"
      by (rule convertLadder_inst)
  qed
qed

lemma convertToType_nonnull: "nonnull_results (convertToType n)"
proof (induction n)
  case 0
  show ?case by (simp add: nonnull_results_def)
next
  case (Suc n)
  show ?case
    unfolding nonnull_results_def
  proof (intro allI impI)
    fix s v t b a ce r s'
    assume h: "convertToType (Suc n) s (Some v) (Some t) b a ce = Inr (r, s')"
      and an: "anchored b a ce"
    from convertToType_Suc[OF h] an obtain vt where "type_of s v = Some vt"
      and "convertLadder (convertToType n) s v vt t b a ce = Inr (r, s')"
      by auto
    with convertToType_inst[of n] Suc an show "r \<noteq> None"
      by (blast dest: convertLadder_nonnull)
  qed
qed


subsection \<open>Constant-expression mode leaves the IR alone\<close>


lemma constCast_const:
  "constCast s oc v t = Inr (r, s') \<Longrightarrow> s' = s \<and> (\<forall>x. r = Some x \<longrightarrow> isConstant x)"
  by (auto simp: constCast_def split: val.splits)

lemma convVia_const:
  assumes "const_results rec" and "convVia rec s v mid t b a True = Inr (r, s')"
  shows "s' = s \<and> (\<forall>x. r = Some x \<longrightarrow> isConstant x)"
proof -
  from assms(2) obtain x s1 where "rec s (Some v) (Some mid) b a True = Inr (x, s1)"
    and "rec s1 x (Some t) b (case x of None \<Rightarrow> None | Some x' \<Rightarrow> asInstruction x') True
           = Inr (r, s')"
    by (rule convVia_stages)
  with assms(1) show ?thesis unfolding const_results_def by blast
qed

lemma intToFloat_const:
  assumes "const_results rec" and "intToFloat rec s v t b a True = Inr (r, s')"
  shows "s' = s \<and> (\<forall>x. r = Some x \<longrightarrow> isConstant x)"
proof -
  from assms(2) obtain x s1 where
    "rec s (Some v) (Some (Integer (getPrimitiveSizeInBits t))) b a True = Inr (Some x, s1)"
    and "constCast s1 BitCast x t = Inr (r, s')"
    by (auto simp: intToFloat_def split: sum.splits option.splits prod.splits)
  with assms(1) show ?thesis
    unfolding const_results_def by (blast dest: constCast_const)
qed

lemma floatToInt_const:
  assumes "const_results rec" and "floatToInt rec s v vt t b a True = Inr (r, s')"
  shows "s' = s \<and> (\<forall>x. r = Some x \<longrightarrow> isConstant x)"
  using assms
  by (auto simp: floatToInt_def castTo_def split: option.splits if_splits
      dest!: convVia_const constCast_const)

lemma fromAggregate_const:
  assumes "const_results rec" and "fromAggregate rec s v vt t b a True = Inr (r, s')"
  shows "s' = s \<and> (\<forall>x. r = Some x \<longrightarrow> isConstant x)"
proof -
  from assms(2) obtain x where "rec s (Some x) (Some t) b (asInstruction x) True = Inr (r, s')"
    by (auto simp: fromAggregate_def split: option.splits sum.splits prod.splits val.splits)
  with assms(1) show ?thesis unfolding const_results_def by blast
qed

lemma toComposite_const:
  assumes "const_results rec" and "toComposite rec s v t b a True = Inr (r, s')"
  shows "s' = s \<and> (\<forall>x. r = Some x \<longrightarrow> isConstant x)"
proof -
  from assms(2) obtain idxt c s1 where
    "rec s (Some v) (Some idxt) b a True = Inr (Some (VConst c), s1)"
    and "s' = s1" and "r = Some (VConst (CInsertValue (CUndef t) c))"
    by (auto simp: toComposite_def
        split: option.splits sum.splits prod.splits if_splits val.splits)
  with assms(1) show ?thesis unfolding const_results_def by auto
qed

lemma convertLadder_const:
  assumes "const_results rec" and "isConstant v"
    and "convertLadder rec s v vt t b a True = Inr (r, s')"
  shows "s' = s \<and> (\<forall>x. r = Some x \<longrightarrow> isConstant x)"
proof (cases "vt = t")
  case True
  with assms(2,3) show ?thesis by (auto simp: convertLadder_def)
next
  case False
  from assms(3) False show ?thesis
  proof (cases rule: convertLadder_cases)
    case (cast oc)
    then show ?thesis by (auto simp: castTo_def dest!: constCast_const)
  next
    case i2f
    with assms(1) show ?thesis by (blast dest: intToFloat_const)
  next
    case p2f
    with assms(1) show ?thesis by (blast dest: convVia_const)
  next
    case f2i
    with assms(1) show ?thesis by (blast dest: floatToInt_const)
  next
    case f2p
    with assms(1) show ?thesis by (blast dest: convVia_const)
  next
    case load
    then show ?thesis by simp
  next
    case agg
    with assms(1) show ?thesis by (blast dest: fromAggregate_const)
  next
    case comp
    with assms(1) show ?thesis by (blast dest: toComposite_const)
  next
    case unsupported
    then show ?thesis by simp
  qed
qed

lemma convertToType_const: "const_results (convertToType n)"
proof (induction n)
  case 0
  show ?case by (simp add: const_results_def)
next
  case (Suc n)
  show ?case
    unfolding const_results_def
  proof (intro allI impI)
    fix s v t b a r s'
    assume h: "convertToType (Suc n) s v t b a True = Inr (r, s')"
    show "s' = s \<and> (\<forall>x. r = Some x \<longrightarrow> isConstant x)"
    proof (cases "v = None \<or> t = None")
      case True
      with h show ?thesis by (auto split: option.splits)
    next
      case False
      then obtain v' t' where vt: "v = Some v'" "t = Some t'" by auto
      with h obtain vt where "isConstant v'"
        and "convertLadder (convertToType n) s v' vt t' b a True = Inr (r, s')"
        by (auto split: if_splits option.splits)
      with Suc show ?thesis by (rule convertLadder_const)
    qed
  qed
qed


subsection \<open>The recursion bound of the entry points is enough\<close>


lemma placeInst_fuel: "placeInst s ins b a \<noteq> Inl OutOfFuel"
  by (auto simp: placeInst_def insertBeforeAfter_def insertBefore_def insertAfter_def
      split: prod.splits sum.splits option.splits if_splits)

lemma constCast_fuel: "constCast s oc v t \<noteq> Inl OutOfFuel"
  by (auto simp: constCast_def split: val.splits)

lemma castTo_fuel: "castTo s oc v t b a ce \<noteq> Inl OutOfFuel"
  by (simp add: castTo_def placeInst_fuel constCast_fuel)

lemma placeAfterInner_fuel: "placeAfterInner s ins v tmp b a \<noteq> Inl OutOfFuel"
  by (auto simp: placeAfterInner_def placeInst_fuel split: val.splits)

lemma convertToType_null_fueled: "null_fueled (convertToType (Suc n))"
  by (simp add: null_fueled_def)

lemma sneed_pos: "0 < sneed vt t"
  by (cases "(vt, t)" rule: sneed.cases) auto

lemma convVia_fuel:
  assumes "typed_results rec" "0 < n \<longrightarrow> null_fueled rec" "scalar_fueled n rec"
    and "type_of s v = Some vt" "\<not> isAggregateType vt" "\<not> isAggregateType mid"
    and "\<not> isAggregateType t" "sneed vt mid \<le> n" "sneed mid t \<le> n"
  shows "convVia rec s v mid t b a ce \<noteq> Inl OutOfFuel"
proof
  assume oof: "convVia rec s v mid t b a ce = Inl OutOfFuel"
  from assms(3,4,5,6,8) have f1: "rec s (Some v) (Some mid) b a ce \<noteq> Inl OutOfFuel"
    unfolding scalar_fueled_def by blast
  with oof obtain x s1 where r1: "rec s (Some v) (Some mid) b a ce = Inr (x, s1)"
    and r2: "rec s1 x (Some t) b (case x of None \<Rightarrow> None | Some x' \<Rightarrow> asInstruction x') ce
              = Inl OutOfFuel"
    by (auto simp: convVia_def split: sum.splits prod.splits)
  show False
  proof (cases x)
    case None
    from assms(8) sneed_pos[of vt mid] have "0 < n" by simp
    with r2 assms(2) None show False unfolding null_fueled_def by blast
  next
    case (Some x')
    with r1 assms(1) have "type_of s1 x' = Some mid"
      unfolding typed_results_def by blast
    with assms(3,6,7,9) r2 Some show False
      unfolding scalar_fueled_def by blast
  qed
qed

lemma floatOfWidth_bits [simp]: "floatOfWidth (fkindBits k) = Some k"
  by (cases k) (simp_all add: floatOfWidth_def)

lemma scalar_ladder_fuel:
  assumes "typed_results rec" "0 < n \<longrightarrow> null_fueled rec" "scalar_fueled n rec"
    and ty: "type_of s v = Some vt" and sv: "\<not> isAggregateType vt" and st: "\<not> isAggregateType t"
    and le: "sneed vt t \<le> Suc n"
  shows "convertLadder rec s v vt t b a ce \<noteq> Inl OutOfFuel"
proof (cases "vt = t")
  case True
  then show ?thesis by (simp add: convertLadder_def)
next
  case False
  show ?thesis
  proof
    assume "convertLadder rec s v vt t b a ce = Inl OutOfFuel"
    from this False show False
    proof (cases rule: convertLadder_cases)
      case (cast oc)
      then show ?thesis by (simp add: castTo_fuel)
    next
      case i2f
      with le have "sneed vt (Integer (getPrimitiveSizeInBits t)) \<le> n"
        by (cases vt; cases t) auto
      with assms(3) ty sv
      have "rec s (Some v) (Some (Integer (getPrimitiveSizeInBits t))) b a ce \<noteq> Inl OutOfFuel"
        unfolding scalar_fueled_def by auto
      with i2f(3) show ?thesis
        by (auto simp: intToFloat_def constCast_fuel placeAfterInner_fuel
            split: sum.splits prod.splits option.splits if_splits)
    next
      case p2f
      with le have "sneed vt (Integer (getPrimitiveSizeInBits t)) \<le> n"
        and "sneed (Integer (getPrimitiveSizeInBits t)) t \<le> n"
        by (cases vt; cases t; auto)+
      with assms(1,2,3) ty sv st p2f(3) show ?thesis
        using convVia_fuel[of rec n s v vt "Integer (getPrimitiveSizeInBits t)" t b a ce]
        by auto
    next
      case f2i
      then obtain k w where vt: "vt = Float k" and t: "t = Integer w"
        by (cases vt; cases t) auto
      show ?thesis
      proof (cases "floatOfWidth w")
        case None
        with le vt t have "sneed vt (Integer 32) \<le> n" "sneed (Integer 32) t \<le> n"
          by (auto simp: floatOfWidth_def)
        with assms(1,2,3) ty sv st
        have "convVia rec s v (Integer 32) t b a ce \<noteq> Inl OutOfFuel"
          using convVia_fuel[of rec n s v vt "Integer 32" t b a ce] by auto
        with f2i(3) None t show ?thesis by (simp add: floatToInt_def)
      next
        case (Some k')
        show ?thesis
        proof (cases "k = k'")
          case True
          with f2i(3) Some vt t show ?thesis by (simp add: floatToInt_def castTo_fuel)
        next
          case False
          with le vt t Some have "sneed vt (Float k') \<le> n" "sneed (Float k') t \<le> n"
            by auto
          with assms(1,2,3) ty sv st
          have "convVia rec s v (Float k') t b a ce \<noteq> Inl OutOfFuel"
            using convVia_fuel[of rec n s v vt "Float k'" t b a ce] by auto
          with f2i(3) Some vt t False show ?thesis by (simp add: floatToInt_def)
        qed
      qed
    next
      case f2p
      with le have "sneed vt (Integer (getPrimitiveSizeInBits vt)) \<le> n"
        and "sneed (Integer (getPrimitiveSizeInBits vt)) t \<le> n"
        by (cases vt; cases t; auto)+
      with assms(1,2,3) ty sv st f2p(3) show ?thesis
        using convVia_fuel[of rec n s v vt "Integer (getPrimitiveSizeInBits vt)" t b a ce]
        by auto
    next
      case load
      with sv show ?thesis by simp
    next
      case agg
      with sv show ?thesis by simp
    next
      case comp
      with st show ?thesis by simp
    next
      case unsupported
      then show ?thesis by simp
    qed
  qed
qed

lemma convertToType_Suc_fuel:
  "type_of s v = Some vt \<Longrightarrow>
   convertLadder (convertToType n) s v vt t b a ce \<noteq> Inl OutOfFuel \<Longrightarrow>
   convertToType (Suc n) s (Some v) (Some t) b a ce \<noteq> Inl OutOfFuel"
  by auto

lemma convertToType_scalar_fueled: "scalar_fueled n (convertToType n)"
proof (induction n)
  case 0
  show ?case
    unfolding scalar_fueled_def
  proof (intro allI impI)
    fix s v vt t b a ce
    assume "sneed vt t \<le> 0"
    then have False by (cases "(vt, t)" rule: sneed.cases) (auto split: if_splits)
    then show "convertToType 0 s (Some v) (Some t) b a ce \<noteq> Inl OutOfFuel" ..
  qed
next
  case (Suc n)
  show ?case
    unfolding scalar_fueled_def
  proof (intro allI impI)
    fix s v vt t b a ce
    assume ty: "type_of s v = Some vt" and sv: "\<not> isAggregateType vt"
      and st: "\<not> isAggregateType t" and le: "sneed vt t \<le> Suc n"
    have "0 < n \<longrightarrow> null_fueled (convertToType n)"
      by (cases n) (simp_all add: convertToType_null_fueled)
    with convertToType_typed[of n] have
      "convertLadder (convertToType n) s v vt t b a ce \<noteq> Inl OutOfFuel"
      using Suc ty sv st le by (rule scalar_ladder_fuel)
    with ty show "convertToType (Suc n) s (Some v) (Some t) b a ce \<noteq> Inl OutOfFuel"
      by (rule convertToType_Suc_fuel)
  qed
qed


lemma sneed_le_3: "sneed vt t \<le> 3"
  by (cases "(vt, t)" rule: sneed.cases) auto

lemma scalar_fueled_mono:
  "scalar_fueled n rec \<Longrightarrow> m \<le> n \<Longrightarrow> scalar_fueled m rec"
  unfolding scalar_fueled_def by (meson le_trans)

lemma tdepth_index0: "getTypeAtIndex0 t = Some et \<Longrightarrow> tdepth t = Suc (tdepth et)"
  by (cases t rule: getTypeAtIndex0.cases) (auto split: if_splits)

lemma tdepth_scalar: "\<not> isAggregateType t \<Longrightarrow> tdepth t = 0"
  by (cases t rule: tdepth.cases) auto

lemma loadAggregate_fuel:
  assumes "scalar_fueled n rec" "0 < n" "load_ok s v" "isLoadInst s v"
  shows "loadAggregate rec s v t b a ce \<noteq> Inl OutOfFuel"
proof
  assume oof: "loadAggregate rec s v t b a ce = Inl OutOfFuel"
  from assms(4) obtain l li where v: "v = VInst l" and li: "insts s l = Some li" "opc li = Load"
    by (cases v) (auto split: option.splits)
  show False
  proof (cases "ops li")
    case Nil
    with oof v li show False by (simp add: loadAggregate_def)
  next
    case (Cons p ps)
    with assms(3) v li obtain pt where pt: "type_of s p = Some (Pointer pt)"
      by (auto simp: load_ok_def split: option.splits ty.splits)
    from assms(2) have "sneed (Pointer pt) (Pointer t) \<le> n" by simp
    with assms(1) pt have "rec s (Some p) (Some (Pointer t)) b a ce \<noteq> Inl OutOfFuel"
      unfolding scalar_fueled_def by auto
    with oof v li Cons show False
      by (auto simp: loadAggregate_def insertAfter_def
          split: if_splits sum.splits prod.splits option.splits val.splits ty.splits)
  qed
qed


lemma placeInst_result:
  "placeInst s ins b a = Inr (r, s') \<Longrightarrow> \<exists>i. r = Some (VInst i) \<and> insts s' i = Some ins"
  by (auto simp: placeInst_def newInst_def split: prod.splits sum.splits
      dest!: insertBeforeAfter_insts)

lemma fromAggregate_fuel:
  assumes "fueled n rec" "type_of s v = Some vt" "tdepth vt + tdepth t + 3 \<le> Suc n"
  shows "fromAggregate rec s v vt t b a ce \<noteq> Inl OutOfFuel"
proof (cases "getTypeAtIndex0 vt")
  case None
  then show ?thesis by (simp add: fromAggregate_def)
next
  case (Some et)
  with assms(3) have le: "tdepth et + tdepth t + 3 \<le> n"
    by (simp add: tdepth_index0)
  show ?thesis
  proof
    assume oof: "fromAggregate rec s v vt t b a ce = Inl OutOfFuel"
    show False
    proof (cases ce)
      case True
      with oof Some obtain c where v: "v = VConst c"
        and r: "rec s (Some (VConst (CExtractValue c))) (Some t) b None True = Inl OutOfFuel"
        by (auto simp: fromAggregate_def split: val.splits)
      from v assms(2) Some have "type_of s (VConst (CExtractValue c)) = Some et" by simp
      moreover have "load_ok s (VConst (CExtractValue c))" by (simp add: load_ok_def)
      ultimately show False using assms(1) le r unfolding fueled_def by blast
    next
      case False
      let ?ins = "\<lparr>opc = ExtractValue, ops = [v], ity = et, iname = []\<rparr>"
      from False oof Some obtain x s1 where p: "placeInst s ?ins b a = Inr (x, s1)"
        and r: "rec s1 x (Some t) b (case x of None \<Rightarrow> None | Some x' \<Rightarrow> asInstruction x') False
                  = Inl OutOfFuel"
        by (auto simp: fromAggregate_def placeInst_fuel split: sum.splits prod.splits)
      from placeInst_result[OF p] obtain i where x: "x = Some (VInst i)"
        and i: "insts s1 i = Some ?ins" by blast
      from i have "type_of s1 (VInst i) = Some et" "load_ok s1 (VInst i)"
        by (simp_all add: load_ok_def)
      with assms(1) le r x show False unfolding fueled_def by auto
    qed
  qed
qed

lemma toComposite_fuel:
  assumes "fueled n rec" "type_of s v = Some vt" "load_ok s v" "\<not> isAggregateType vt"
    and "tdepth vt + tdepth t + 3 \<le> Suc n"
  shows "toComposite rec s v t b a ce \<noteq> Inl OutOfFuel"
proof (cases "getTypeAtIndex0 t")
  case None
  then show ?thesis by (simp add: toComposite_def)
next
  case (Some idxt)
  with assms(5) have "tdepth vt + tdepth idxt + 3 \<le> n"
    by (simp add: tdepth_index0)
  with assms(1,2,3) have "rec s (Some v) (Some idxt) b a ce \<noteq> Inl OutOfFuel"
    unfolding fueled_def by blast
  with Some show ?thesis
    by (auto simp: toComposite_def placeAfterInner_fuel
        split: sum.splits prod.splits option.splits val.splits)
qed

lemma convertToType_fueled: "fueled n (convertToType n)"
proof (induction n)
  case 0
  show ?case by (simp add: fueled_def)
next
  case (Suc n)
  show ?case
    unfolding fueled_def
  proof (intro allI impI)
    fix s v vt t b a ce
    assume ty: "type_of s v = Some vt" and lo: "load_ok s v"
      and le: "tdepth vt + tdepth t + 3 \<le> Suc n"
    show "convertToType (Suc n) s (Some v) (Some t) b a ce \<noteq> Inl OutOfFuel"
    proof (cases "isAggregateType vt \<or> isAggregateType t")
      case False
      from le sneed_le_3[of vt t] have "sneed vt t \<le> Suc n" by simp
      with convertToType_scalar_fueled[of "Suc n"] ty False show ?thesis
        unfolding scalar_fueled_def by blast
    next
      case True
      have "convertLadder (convertToType n) s v vt t b a ce \<noteq> Inl OutOfFuel"
      proof (cases "vt = t")
        case True
        then show ?thesis by (simp add: convertLadder_def)
      next
        case False
        show ?thesis
        proof
          assume "convertLadder (convertToType n) s v vt t b a ce = Inl OutOfFuel"
          from this False show False
          proof (cases rule: convertLadder_cases)
            case (cast oc)
            then show ?thesis by (simp add: castTo_fuel)
          next
            case i2f
            with True show ?thesis by (cases vt; cases t) auto
          next
            case p2f
            with True show ?thesis by (cases vt; cases t) auto
          next
            case f2i
            with True show ?thesis by (cases vt; cases t) auto
          next
            case f2p
            with True show ?thesis by (cases vt; cases t) auto
          next
            case load
            from le have "0 < n" by simp
            with convertToType_scalar_fueled[of n] lo load show ?thesis
              using loadAggregate_fuel by blast
          next
            case agg
            with Suc ty le show ?thesis using fromAggregate_fuel by blast
          next
            case comp
            with Suc ty lo le show ?thesis using toComposite_fuel by blast
          next
            case unsupported
            then show ?thesis by simp
          qed
        qed
      qed
      with ty show ?thesis by (rule convertToType_Suc_fuel)
    qed
  qed
qed

lemma convFuel_suffices:
  assumes "load_ok s v"
  shows "convertToType (convFuel s (Some v) tyo) s (Some v) tyo b a ce \<noteq> Inl OutOfFuel"
proof (cases tyo)
  case None
  then show ?thesis by (simp add: convFuel_def)
next
  case (Some t)
  show ?thesis
  proof (cases "type_of s v")
    case None
    with Some show ?thesis by (simp add: convFuel_def)
  next
    case (Some vt)
    with \<open>tyo = Some t\<close> have "convFuel s (Some v) tyo = tdepth vt + tdepth t + 3"
      by (simp add: convFuel_def)
    with convertToType_fueled[of "tdepth vt + tdepth t + 3"] Some assms \<open>tyo = Some t\<close>
    show ?thesis unfolding fueled_def by auto
  qed
qed

lemma convertConstantToType_fuel: "convertConstantToType s (Some c) tyo \<noteq> Inl OutOfFuel"
proof -
  have "load_ok s (VConst c)" by (simp add: load_ok_def)
  from convFuel_suffices[OF this, of tyo None None True] show ?thesis
    by (auto simp: convertConstantToType_def split: sum.splits option.splits val.splits)
qed


subsection \<open>The route from a float to an integer\<close>


lemma castTo_result:
  assumes "castTo s oc v mid b a ce = Inr (Some x, s1)"
  shows "type_of s1 x = Some mid" and "anchored b (asInstruction x) ce" and "ce \<longrightarrow> isConstant x"
proof -
  from assms show "type_of s1 x = Some mid" by (rule castTo_type)
  from assms show "anchored b (asInstruction x) ce"
    by (cases ce) (auto simp: anchored_def dest!: castTo_inst)
  from assms show "ce \<longrightarrow> isConstant x"
    by (auto simp: castTo_def constCast_def split: val.splits)
qed

lemma castTo_not_null: "castTo s oc v t b a ce \<noteq> Inr (None, s1)"
  using castTo_nonnull by blast

lemma convertToType_ladder:
  assumes "type_of s v = Some vt" "anchored b a ce" "ce \<longrightarrow> isConstant v"
  shows "convertToType (Suc n) s (Some v) (Some t) b a ce
           = convertLadder (convertToType n) s v vt t b a ce"
  using assms by (auto simp: anchored_def)

lemma castThen_convert:
  assumes "\<And>x s1. res = Inr (Some x, s1) \<Longrightarrow>
             type_of s1 x = Some mid \<and> anchored b (asInstruction x) ce \<and> (ce \<longrightarrow> isConstant x)"
    and "\<And>x s1. res \<noteq> Inr (None, s1)"
    and "\<And>s1 x a'. convertLadder (convertToType n) s1 x mid t b a' ce = castTo s1 oc x t b a' ce"
  shows "(case res of Inl e \<Rightarrow> Inl e
          | Inr (x, s1) \<Rightarrow> convertToType (Suc n) s1 x (Some t) b
               (case x of None \<Rightarrow> None | Some x' \<Rightarrow> asInstruction x') ce)
         = castThen res oc t b ce"
proof (cases res)
  case (Inl e)
  then show ?thesis by (simp add: castThen_def)
next
  case (Inr p)
  obtain xo s1 where "p = (xo, s1)" by (cases p)
  with Inr assms(2) obtain x where p: "res = Inr (Some x, s1)"
    by (cases xo) auto
  from assms(1)[OF p] assms(3) show ?thesis
    unfolding p by (simp add: castThen_def convertToType_ladder del: convertToType.simps)
qed


lemma ladder_int_int:
  "w' \<noteq> w \<Longrightarrow> convertLadder rec s x (Integer w') (Integer w) b a ce
     = castTo s IntegerCast x (Integer w) b a ce"
  by (simp add: convertLadder_def)

lemma ladder_float_float:
  "k \<noteq> k' \<Longrightarrow> convertLadder rec s x (Float k) (Float k') b a ce
     = castTo s FPCast x (Float k') b a ce"
  by (simp add: convertLadder_def)

lemma ladder_float_int_same:
  "floatOfWidth w = Some k \<Longrightarrow> convertLadder rec s x (Float k) (Integer w) b a ce
     = castTo s BitCast x (Integer w) b a ce"
  by (simp add: convertLadder_def floatToInt_def)

lemma floatOfWidth_32 [simp]: "floatOfWidth 32 = Some Single"
  by (simp add: floatOfWidth_def)

lemma convert_float_to_i32:
  assumes "type_of s v = Some (Float k)" "anchored b a ce" "ce \<longrightarrow> isConstant v"
  shows "convertToType (Suc (Suc n)) s (Some v) (Some (Integer 32)) b a ce
     = (if k = Single then castTo s BitCast v (Integer 32) b a ce
        else castThen (castTo s FPCast v (Float Single) b a ce) BitCast (Integer 32) b ce)"
proof (cases "k = Single")
  case True
  with assms show ?thesis
    by (simp add: convertToType_ladder ladder_float_int_same del: convertToType.simps)
next
  case False
  have "convertToType (Suc n) s (Some v) (Some (Float Single)) b a ce
          = castTo s FPCast v (Float Single) b a ce"
    using assms False
    by (simp add: convertToType_ladder ladder_float_float del: convertToType.simps)
  moreover have "(case castTo s FPCast v (Float Single) b a ce of Inl e \<Rightarrow> Inl e
          | Inr (x, s1) \<Rightarrow> convertToType (Suc n) s1 x (Some (Integer 32)) b
               (case x of None \<Rightarrow> None | Some x' \<Rightarrow> asInstruction x') ce)
         = castThen (castTo s FPCast v (Float Single) b a ce) BitCast (Integer 32) b ce"
    by (rule castThen_convert[where mid = "Float Single"])
       (auto simp: castTo_result castTo_not_null ladder_float_int_same)
  ultimately show ?thesis
    using assms False
    by (simp add: convertToType_ladder[of s v "Float k"] convertLadder_def floatToInt_def
        convVia_def del: convertToType.simps)
qed


lemma castThen_result:
  assumes "castThen res oc mid b ce = Inr (Some x, s1)"
  shows "type_of s1 x = Some mid \<and> anchored b (asInstruction x) ce \<and> (ce \<longrightarrow> isConstant x)"
  using assms
  by (auto simp: castThen_def castTo_result split: sum.splits prod.splits option.splits)

lemma castThen_not_null: "castThen res oc t b ce \<noteq> Inr (None, s1)"
  by (auto simp: castThen_def castTo_not_null split: sum.splits prod.splits option.splits)

lemma floatOfWidth_None_32: "floatOfWidth w = None \<Longrightarrow> 32 \<noteq> w"
  by (auto simp: floatOfWidth_def split: if_splits)

lemma convert_float_to_int:
  assumes "type_of s v = Some (Float k)" "anchored b a ce" "ce \<longrightarrow> isConstant v"
  shows "convertToType (Suc (Suc (Suc n))) s (Some v) (Some (Integer w)) b a ce
           = floatToIntRoute s v k w b a ce"
proof (cases "floatOfWidth w")
  case None
  let ?R = "if k = Single then castTo s BitCast v (Integer 32) b a ce
        else castThen (castTo s FPCast v (Float Single) b a ce) BitCast (Integer 32) b ce"
  have first: "convertToType (Suc (Suc n)) s (Some v) (Some (Integer 32)) b a ce = ?R"
    using assms by (rule convert_float_to_i32)
  have "(case ?R of Inl e \<Rightarrow> Inl e
          | Inr (x, s1) \<Rightarrow> convertToType (Suc (Suc n)) s1 x (Some (Integer w)) b
               (case x of None \<Rightarrow> None | Some x' \<Rightarrow> asInstruction x') ce)
         = castThen ?R IntegerCast (Integer w) b ce"
  proof (rule castThen_convert[where mid = "Integer 32"])
    fix x s1
    assume "?R = Inr (Some x, s1)"
    then show "type_of s1 x = Some (Integer 32) \<and> anchored b (asInstruction x) ce
                 \<and> (ce \<longrightarrow> isConstant x)"
      by (cases "k = Single") (simp_all add: castTo_result castThen_result)
  next
    fix s1
    show "?R \<noteq> Inr (None, s1)"
      by (simp add: castTo_not_null castThen_not_null)
  next
    fix s1 x a'
    from None have "32 \<noteq> w" by (rule floatOfWidth_None_32)
    then show "convertLadder (convertToType (Suc n)) s1 x (Integer 32) (Integer w) b a' ce
                 = castTo s1 IntegerCast x (Integer w) b a' ce"
      by (rule ladder_int_int)
  qed
  with first None assms show ?thesis
    by (simp add: convertToType_ladder[of s v "Float k"] convertLadder_def floatToInt_def
        convVia_def floatToIntRoute_def del: convertToType.simps)
next
  case (Some k')
  show ?thesis
  proof (cases "k = k'")
    case True
    with Some assms show ?thesis
      by (simp add: convertToType_ladder[of s v "Float k"] ladder_float_int_same
          floatToIntRoute_def del: convertToType.simps)
  next
    case False
    let ?R = "castTo s FPCast v (Float k') b a ce"
    have first: "convertToType (Suc (Suc n)) s (Some v) (Some (Float k')) b a ce = ?R"
      using assms False
      by (simp add: convertToType_ladder ladder_float_float del: convertToType.simps)
    have "(case ?R of Inl e \<Rightarrow> Inl e
          | Inr (x, s1) \<Rightarrow> convertToType (Suc (Suc n)) s1 x (Some (Integer w)) b
               (case x of None \<Rightarrow> None | Some x' \<Rightarrow> asInstruction x') ce)
         = castThen ?R BitCast (Integer w) b ce"
      using Some
      by (intro castThen_convert[where mid = "Float k'"])
         (auto simp: castTo_result castTo_not_null ladder_float_int_same)
    with first Some False assms show ?thesis
      by (simp add: convertToType_ladder[of s v "Float k"] convertLadder_def floatToInt_def
          convVia_def floatToIntRoute_def del: convertToType.simps)
  qed
qed


section \<open>Global variables: lookups after a call\<close>


lemmas gv_eval = getGlobalVariable_def globalVariableCanBeCreated_def getLlvmGlobalVariable_def
  declareGlobal_def fromDebug_def fromConfig_def fromCrypto_def getConfigGlobalVariable_def
  newGlobal_def rebuildFromImage_def detectGlobalVariableInitializerCycle_def
  insertGlobalVariable_def Let_def

lemma lookup_registered:
  assumes "named_only s n g" and "config_handle_at s a = Some g"
  shows "getLlvmGlobalVariable s n a = Some g"
proof (cases "find (\<lambda>(g, gv). gname gv = n) (globals s)")
  case None
  with assms(2) show ?thesis
    by (simp add: getLlvmGlobalVariable_def config_handle_at_def split: option.splits)
next
  case (Some x)
  then have "(case x of (g, gv) \<Rightarrow> gname gv = n) \<and> x \<in> set (globals s)"
    by (auto simp: find_Some_iff) (metis nth_mem)
  then obtain h gv where x: "x = (h, gv)" and "gname gv = n" and "(h, gv) \<in> set (globals s)"
    by (cases x) auto
  with assms(1) have "h = g" by (auto simp: named_only_def)
  with Some x show ?thesis by (simp add: getLlvmGlobalVariable_def)
qed

lemma canBeCreated_cong:
  "cfg_functions s' = cfg_functions s \<Longrightarrow> arch_arm_or_thumb s' = arch_arm_or_thumb s \<Longrightarrow>
   arch_pic32 s' = arch_pic32 s \<Longrightarrow>
   globalVariableCanBeCreated s' objfo addro strict = globalVariableCanBeCreated s objfo addro strict"
  by (simp only: globalVariableCanBeCreated_def)

lemma find_None_named: "find (\<lambda>(g, gv). gname gv = n) xs = None \<Longrightarrow>
   \<forall>(h, gv) \<in> set xs. gname gv \<noteq> n"
  by (auto simp: find_None_iff)

lemma convertConstantToType_state:
  "convertConstantToType s co tyo = Inr (r, s') \<Longrightarrow> s' = s"
proof -
  assume "convertConstantToType s co tyo = Inr (r, s')"
  then obtain x where "convertToType (convFuel s (map_option VConst co) tyo) s
      (map_option VConst co) tyo None None True = Inr (x, s')"
    by (auto simp: convertConstantToType_def split: sum.splits option.splits val.splits)
  with convertToType_const show ?thesis unfolding const_results_def by blast
qed

lemma rebuild_result:
  assumes "rebuildFromImage s1 objf a d isConst gv = Some (Inr (Some g, s'))"
    and "\<forall>(h, x) \<in> set (globals s1). gname x = n \<longrightarrow> h = gv"
  shows "same_tables s1 s' \<and> named_only s' n g \<and> config_handle_at s' a = Some g"
proof -
  from assms(1) obtain c ct ngv s2 conv s3 s4 where
    ng: "newGlobal s1 \<lparr>gty = ct, ginit = Some c, gconst = isConst, gname = gd_name d\<rparr>
           = Inr (ngv, s2)"
    and cv: "convertConstantToType s2 (Some (CGlobal ngv)) (ctype s2 (CGlobal gv))
           = Inr (Some conv, s3)"
    and er: "eraseGlobal (if conv \<noteq> CGlobal ngv then replaceGlobalUses s3 gv conv else s3) gv
           = Inr s4"
    and g: "g = ngv"
    and s': "s' = insertGlobalVariable s4 ngv a (gd_debug d) (gd_real d) (gd_crypto d)"
    by (auto simp: rebuildFromImage_def
        split: option.splits sum.splits prod.splits)
  from cv have s3: "s3 = s2" by (rule convertConstantToType_state)
  from ng have s2: "s2 = s1\<lparr>globals := globals s1 @ [(next_id s1,
        \<lparr>gty = ct, ginit = Some c, gconst = isConst, gname = gd_name d\<rparr>)],
        next_id := Suc (next_id s1)\<rparr>" and ngv: "ngv = next_id s1"
    by (auto simp: newGlobal_def split: if_splits)
  let ?m = "if conv \<noteq> CGlobal ngv then replaceGlobalUses s3 gv conv else s3"
  have names: "\<forall>(h, x) \<in> set (globals ?m). gname x = n \<longrightarrow> h = gv \<or> h = ngv"
    using assms(2) by (auto simp: s3 s2 ngv replaceGlobalUses_def)
  have tabs: "same_tables s1 ?m"
    by (simp add: same_tables_def s3 s2 replaceGlobalUses_def)
  from er have s4: "s4 = ?m\<lparr>globals := filter (\<lambda>(h, gv'). h \<noteq> gv) (globals ?m)\<rparr>"
    by (auto simp: eraseGlobal_def Let_def split: if_splits)
  from names have "\<forall>(h, x) \<in> set (globals s4). gname x = n \<longrightarrow> h = ngv"
    by (auto simp: s4)
  moreover from tabs have "same_tables s1 s4"
    by (simp add: same_tables_def s4)
  ultimately show ?thesis
    by (auto simp: s' g named_only_def same_tables_def insertGlobalVariable_def Let_def
        config_handle_at_def)
qed


lemma created_result:
  assumes "getGlobalVariable s (Some objf) dbgf (Some a) strict name = Some (Inr (Some g, s1))"
    and "globalVariableCanBeCreated s (Some objf) (Some a) strict"
    and "getLlvmGlobalVariable s (appendHex objf name a) a = None"
  shows "same_tables s s1 \<and> named_only s1 (appendHex objf name a) g
           \<and> config_handle_at s1 a = Some g"
proof -
  let ?n = "appendHex objf name a"
  let ?d = "declareGlobal s objf dbgf a ?n"
  let ?gv = "\<lparr>gty = gd_type ?d, ginit = gd_init ?d,
              gconst = hasReadOnlyDataOnAddress objf a, gname = gd_name ?d\<rparr>"
  let ?s0 = "s\<lparr>globals := globals s @ [(next_id s, ?gv)], next_id := Suc (next_id s)\<rparr>"
  from assms(3) have old: "\<forall>(h, gv) \<in> set (globals s). gname gv \<noteq> ?n"
    by (auto simp: getLlvmGlobalVariable_def dest!: find_None_named split: option.splits prod.splits)
  from assms have ng: "newGlobal s ?gv = Inr (next_id s, ?s0)"
    by (auto simp: getGlobalVariable_def Let_def newGlobal_def split: if_splits sum.splits)
  show ?thesis
  proof (cases "gd_init ?d = None")
    case False
    with assms ng have "g = next_id s"
      and "s1 = insertGlobalVariable ?s0 (next_id s) a (gd_debug ?d) (gd_real ?d) (gd_crypto ?d)"
      by (auto simp: getGlobalVariable_def Let_def)
    with old show ?thesis
      by (auto simp: named_only_def same_tables_def insertGlobalVariable_def Let_def
          config_handle_at_def)
  next
    case True
    with assms ng have r: "rebuildFromImage ?s0 objf a ?d (hasReadOnlyDataOnAddress objf a)
        (next_id s) = Some (Inr (Some g, s1))"
      by (auto simp: getGlobalVariable_def Let_def)
    from old have "\<forall>(h, x) \<in> set (globals ?s0). gname x = ?n \<longrightarrow> h = next_id s"
      by auto
    from rebuild_result[OF r this] show ?thesis
      by (simp add: same_tables_def)
  qed
qed


lemmas outcome_defs = returned_def state_after_def module_globals_def config_handle_at_def
  module_globals_after_def config_handle_after_def


section \<open>Global variables: initializers and references\<close>


lemma lookup_map_of: "lookup xs k = map_of xs k"
  by (induction xs) auto

lemma lookup_in_set: "lookup xs k = Some v \<Longrightarrow> (k, v) \<in> set xs"
  by (simp add: lookup_map_of map_of_SomeD)

lemma csubst_id: "g \<notin> set (crefs c) \<Longrightarrow> csubst g r c = c"
  by (induction c rule: crefs.induct) (auto simp: map_idI)

lemma not_self_referencing:
  assumes "refs_below n (globals s)" and "n \<le> g"
  shows "\<not> self_referencing s g"
proof
  assume "self_referencing s g"
  then have "(g, g) \<in> (ref_rel s)\<^sup>+" by (simp add: self_referencing_def)
  then obtain x where "(x, g) \<in> ref_rel s" by (meson tranclD2)
  then obtain gv c where "(x, gv) \<in> set (globals s)" "ginit gv = Some c" "g \<in> set (crefs c)"
    by (auto simp: ref_rel_def init_refs_def initializer_of_def
        split: option.splits dest!: lookup_in_set) (metis)
  with assms(1) have "g < n" by (auto simp: refs_below_def)
  with assms(2) show False by simp
qed

lemma declare_init_typed:
  "gd_init (declareGlobal s objf dbgf a n) = Some c \<Longrightarrow> \<exists>t. getConstantTyped objf t a = Some c"
  by (auto simp: declareGlobal_def fromCrypto_def fromConfig_def fromDebug_def Let_def
      split: option.splits prod.splits if_splits)

lemma detect_result:
  assumes "detectGlobalVariableInitializerCycle s (Some gv) co (Some objf) (Some a)
             = Some (Some c')"
  shows "getConstantTyped objf (default_type s) a = Some c'
         \<or> (co = Some c' \<and> c' \<noteq> CGlobal gv)"
  using assms
  by (auto simp: detectGlobalVariableInitializerCycle_def
      split: option.splits if_splits const.splits bool.splits)

lemma detect_self:
  "detectGlobalVariableInitializerCycle s (Some gv) (Some (CGlobal gv)) (Some objf) (Some a)
     = Some (getConstantTyped objf (default_type s) a)"
  by (simp add: detectGlobalVariableInitializerCycle_def)

lemma refs_below_subst:
  assumes "refs_below n gs" and "n \<le> g"
  shows "map (\<lambda>(h, gv). (h, gv\<lparr>ginit := map_option (csubst g r) (ginit gv)\<rparr>)) gs = gs"
proof (rule map_idI)
  fix x assume x: "x \<in> set gs"
  obtain h gv where hg: "x = (h, gv)" by (cases x)
  have "map_option (csubst g r) (ginit gv) = ginit gv"
  proof (cases "ginit gv")
    case None
    then show ?thesis by simp
  next
    case (Some c)
    with assms x hg have "g \<notin> set (crefs c)" by (fastforce simp: refs_below_def)
    with Some show ?thesis by (simp add: csubst_id)
  qed
  with hg show "(case x of (h, gv) \<Rightarrow> (h, gv\<lparr>ginit := map_option (csubst g r) (ginit gv)\<rparr>)) = x"
    by simp
qed


lemma insertGlobalVariable_globals [simp]:
  "globals (insertGlobalVariable s g a dbg rn cd) = globals s"
  by (simp add: insertGlobalVariable_def Let_def)

lemma rebuild_globals:
  assumes r: "rebuildFromImage s0 objf a d isConst gv = Some (Inr (Some g, s'))"
    and rb: "refs_below n (globals s0)" and le: "n \<le> gv" and lt: "gv < next_id s0"
    and img: "\<And>c'. detectGlobalVariableInitializerCycle s0 (Some gv) (getConstantAuto objf s0 a)
                 (Some objf) (Some a) = Some (Some c') \<Longrightarrow> \<forall>h \<in> set (crefs c'). h < n"
  shows "\<exists>c' ct. detectGlobalVariableInitializerCycle s0 (Some gv) (getConstantAuto objf s0 a)
                 (Some objf) (Some a) = Some (Some c')
           \<and> g = next_id s0
           \<and> globals s' = filter (\<lambda>(h, x). h \<noteq> gv) (globals s0)
               @ [(next_id s0, \<lparr>gty = ct, ginit = Some c', gconst = isConst, gname = gd_name d\<rparr>)]"
proof -
  from r obtain c ct ngv s2 conv s3 s4 where
    dt: "detectGlobalVariableInitializerCycle s0 (Some gv) (getConstantAuto objf s0 a)
           (Some objf) (Some a) = Some (Some c)"
    and ng: "newGlobal s0 \<lparr>gty = ct, ginit = Some c, gconst = isConst, gname = gd_name d\<rparr>
           = Inr (ngv, s2)"
    and cv: "convertConstantToType s2 (Some (CGlobal ngv)) (ctype s2 (CGlobal gv))
           = Inr (Some conv, s3)"
    and er: "eraseGlobal (if conv \<noteq> CGlobal ngv then replaceGlobalUses s3 gv conv else s3) gv
           = Inr s4"
    and g: "g = ngv"
    and s': "s' = insertGlobalVariable s4 ngv a (gd_debug d) (gd_real d) (gd_crypto d)"
    by (auto simp: rebuildFromImage_def
        split: option.splits sum.splits prod.splits)
  let ?new = "(next_id s0, \<lparr>gty = ct, ginit = Some c, gconst = isConst, gname = gd_name d\<rparr>)"
  from cv have s3: "s3 = s2" by (rule convertConstantToType_state)
  from ng have gs2: "globals s2 = globals s0 @ [?new]" and ngv: "ngv = next_id s0"
    by (auto simp: newGlobal_def split: if_splits)
  from img[OF dt] rb have rb2: "refs_below n (globals s2)"
    by (auto simp: refs_below_def gs2)
  let ?m = "if conv \<noteq> CGlobal ngv then replaceGlobalUses s3 gv conv else s3"
  have gm: "globals ?m = globals s2"
    using refs_below_subst[OF rb2 le, of conv] by (simp add: replaceGlobalUses_def s3)
  from er have "globals s4 = filter (\<lambda>(h, x). h \<noteq> gv) (globals ?m)"
    by (auto simp: eraseGlobal_def Let_def split: if_splits)
  with gm gs2 lt have "globals s4 = filter (\<lambda>(h, x). h \<noteq> gv) (globals s0) @ [?new]"
    by simp
  with dt g ngv s' show ?thesis by auto
qed

lemma underConstruction_simps:
  "globals (underConstruction s objf dbgf a name) = globals s @ [(next_id s,
      \<lparr>gty = gd_type (declareGlobal s objf dbgf a (appendHex objf name a)),
         ginit = gd_init (declareGlobal s objf dbgf a (appendHex objf name a)),
         gconst = hasReadOnlyDataOnAddress objf a,
         gname = gd_name (declareGlobal s objf dbgf a (appendHex objf name a))\<rparr>)]"
  "next_id (underConstruction s objf dbgf a name) = Suc (next_id s)"
  "default_type (underConstruction s objf dbgf a name) = default_type s"
  by (simp_all add: underConstruction_def Let_def)

lemma getGlobalVariable_creates:
  assumes "getGlobalVariable s (Some objf) dbgf (Some a) strict name = Some (Inr (Some g, s'))"
    and "getLlvmGlobalVariable s (appendHex objf name a) a = None"
  shows "(gd_init (declareGlobal s objf dbgf a (appendHex objf name a)) \<noteq> None
           \<and> g = next_id s
           \<and> globals s' = globals (underConstruction s objf dbgf a name))
         \<or> (gd_init (declareGlobal s objf dbgf a (appendHex objf name a)) = None
           \<and> rebuildFromImage (underConstruction s objf dbgf a name) objf a
                (declareGlobal s objf dbgf a (appendHex objf name a))
                (hasReadOnlyDataOnAddress objf a) (next_id s) = Some (Inr (Some g, s')))"
  using assms
  by (auto simp: getGlobalVariable_def Let_def newGlobal_def underConstruction_def
      split: if_splits)


lemma lookup_append_fresh:
  "k \<notin> fst ` set xs \<Longrightarrow> lookup (xs @ [(k, v)]) k = Some v"
  by (induction xs) auto

lemma handles_fresh_refs: "handles_fresh s \<Longrightarrow> refs_below (next_id s) (globals s)"
  by (auto simp: handles_fresh_def refs_below_def)

lemma handles_fresh_ids: "handles_fresh s \<Longrightarrow> (h, x) \<in> set (globals s) \<Longrightarrow> h < next_id s"
  by (auto simp: handles_fresh_def)


section \<open>Localize: the effect on instructions and layout\<close>


lemmas localize_eval = localize_def getFunction_def entryFront_def newInst_def insertBefore_def
  in_layout_def map_blocks_def ins_before_def eraseInst_def replaceUsesOfWith_def
  operand_occurs_after_def operand_occurs_def

lemma patch_idem: "patch from to (patch from to ins) = patch from to ins"
  by (simp add: patch_def)

lemma replaceInAll_result:
  "replaceInAll s us from to = Inr s' \<Longrightarrow>
     funcs s' = funcs s \<and>
     (\<forall>i. insts s' i = (if i \<in> set us then map_option (patch from to) (insts s i)
                         else insts s i))"
proof (induction us arbitrary: s)
  case Nil
  then show ?case by simp
next
  case (Cons u us)
  from Cons.prems obtain ins where ins: "insts s u = Some ins"
    and r: "replaceInAll (s\<lparr>insts := (insts s)(u \<mapsto> patch from to ins)\<rparr>) us from to = Inr s'"
    by (auto simp: replaceUsesOfWith_def patch_def split: option.splits)
  from Cons.IH[OF r] ins show ?case
    by (auto simp: patch_idem)
qed

lemma erase_after_insert:
  "ns \<noteq> d \<Longrightarrow> filter (\<lambda>x. x \<noteq> d) (ins_before ns d blk) = map (\<lambda>x. if x = d then ns else x) blk"
  by (induction blk) (auto simp: ins_before_def)

lemma layout_map_blocks: "layout (map_blocks g s) = map (map g) (layout s)"
  by (auto simp: layout_def map_blocks_def)


lemma insts_fresh: "ids_fresh s \<Longrightarrow> insts s i = Some x \<Longrightarrow> i < next_id s"
  by (fastforce simp: ids_fresh_def not_le[symmetric])


lemma replaceInAll_exists:
  "replaceInAll s us from to = Inr s' \<Longrightarrow> u \<in> set us \<Longrightarrow> insts s u \<noteq> None"
proof (induction us arbitrary: s)
  case Nil
  then show ?case by simp
next
  case (Cons w us)
  from Cons.prems(1) obtain ins where ins: "insts s w = Some ins"
    and r: "replaceInAll (s\<lparr>insts := (insts s)(w \<mapsto> patch from to ins)\<rparr>) us from to = Inr s'"
    by (auto simp: replaceUsesOfWith_def patch_def split: option.splits)
  show ?case
  proof (cases "u = w")
    case True
    with ins show ?thesis by simp
  next
    case False
    with Cons.prems(2) have "u \<in> set us" by simp
    from Cons.IH[OF r this] False show ?thesis by (simp split: if_splits)
  qed
qed

lemma next_id_map_blocks: "next_id (map_blocks g s) = next_id s"
  by (simp add: map_blocks_def)

lemma insertBefore_result:
  "insertBefore s i b = Inr s' \<Longrightarrow>
     in_layout s b \<and> insts s' = insts s \<and> layout s' = map (map (ins_before i b)) (layout s)
     \<and> next_id s' = next_id s"
  by (auto simp: insertBefore_def layout_map_blocks next_id_map_blocks split: if_splits)

lemma patched_no_operand:
  "p \<noteq> to \<Longrightarrow> p \<notin> set (ops (patch p to ins))"
  by (auto simp: patch_def)


section \<open>Claims about the type converter\<close>

lemma convFuel_pos: "\<exists>n. convFuel s valo tyo = Suc n"
  by (cases "convFuel s valo tyo") (auto simp: convFuel_def split: option.splits)

text \<open>
  Claim C4. A live conversion with an insertion point that does not fail returns a value,
  and the type of that value in the resulting IR is the target type. When the type of the
  value is already the target type, the value itself is returned and the IR is unchanged,
  so no cast instruction is created. A failure is never the recursion bound of the model
  running out, as long as the operand of a converted load is a pointer.
\<close>

theorem convert_returns_target_type:
  "(convertValueToType s (Some v) (Some t) (Some b) = Inr (r, s') \<longrightarrow>
      (\<exists>x. r = Some x \<and> type_of s' x = Some t))
   \<and> (convertValueToTypeAfter s (Some v) (Some t) (Some a) = Inr (r, s') \<longrightarrow>
      (\<exists>x. r = Some x \<and> type_of s' x = Some t))
   \<and> (type_of s v = Some t \<longrightarrow>
      convertValueToType s (Some v) (Some t) (Some b) = Inr (Some v, s)
      \<and> convertValueToTypeAfter s (Some v) (Some t) (Some a) = Inr (Some v, s))
   \<and> (load_ok s v \<longrightarrow>
      convertValueToType s (Some v) (Some t) (Some b) \<noteq> Inl OutOfFuel
      \<and> convertValueToTypeAfter s (Some v) (Some t) (Some a) \<noteq> Inl OutOfFuel)"
proof (intro conjI impI)
  assume h: "convertValueToType s (Some v) (Some t) (Some b) = Inr (r, s')"
  have "anchored (Some b) None False" by (simp add: anchored_def)
  with h convertToType_nonnull obtain x where x: "r = Some x"
    unfolding nonnull_results_def convertValueToType_def by blast
  with h convertToType_typed have "type_of s' x = Some t"
    unfolding typed_results_def convertValueToType_def by blast
  with x show "\<exists>x. r = Some x \<and> type_of s' x = Some t" by simp
next
  assume h: "convertValueToTypeAfter s (Some v) (Some t) (Some a) = Inr (r, s')"
  have "anchored None (Some a) False" by (simp add: anchored_def)
  with h convertToType_nonnull obtain x where x: "r = Some x"
    unfolding nonnull_results_def convertValueToTypeAfter_def by blast
  with h convertToType_typed have "type_of s' x = Some t"
    unfolding typed_results_def convertValueToTypeAfter_def by blast
  with x show "\<exists>x. r = Some x \<and> type_of s' x = Some t" by simp
next
  assume ty: "type_of s v = Some t"
  obtain n where n: "convFuel s (Some v) (Some t) = Suc n"
    using convFuel_pos by blast
  with ty show "convertValueToType s (Some v) (Some t) (Some b) = Inr (Some v, s)"
    by (simp add: convertValueToType_def convertLadder_def)
  from n ty show "convertValueToTypeAfter s (Some v) (Some t) (Some a) = Inr (Some v, s)"
    by (simp add: convertValueToTypeAfter_def convertLadder_def)
next
  assume "load_ok s v"
  then show "convertValueToType s (Some v) (Some t) (Some b) \<noteq> Inl OutOfFuel"
    unfolding convertValueToType_def by (rule convFuel_suffices)
next
  assume "load_ok s v"
  then show "convertValueToTypeAfter s (Some v) (Some t) (Some a) \<noteq> Inl OutOfFuel"
    unfolding convertValueToTypeAfter_def by (rule convFuel_suffices)
qed

text \<open>
  Claim C5. A constant-expression conversion that does not fail returns a constant whose
  type is the target type, and the IR after the call is the IR before it. A failure is an
  assertion or the unhandled pair of types, never the recursion bound of the model.
\<close>

theorem constant_conversion_typed_and_pure:
  "(convertConstantToType s (Some c) (Some t) = Inr (r, s') \<longrightarrow>
     s' = s \<and> (\<exists>c'. r = Some c' \<and> ctype s c' = Some t))
   \<and> convertConstantToType s (Some c) (Some t) \<noteq> Inl OutOfFuel"
proof (intro conjI impI)
  assume h: "convertConstantToType s (Some c) (Some t) = Inr (r, s')"
  let ?n = "convFuel s (Some (VConst c)) (Some t)"
  from h obtain x where cr: "convertToType ?n s (Some (VConst c)) (Some t) None None True = Inr (x, s')"
    and rx: "(x = None \<and> r = None) \<or> (\<exists>c'. x = Some (VConst c') \<and> r = Some c')"
    by (auto simp: convertConstantToType_def split: sum.splits option.splits val.splits)
  from cr convertToType_const have s: "s' = s"
    unfolding const_results_def by blast
  have "anchored None None True" by (simp add: anchored_def)
  with cr convertToType_nonnull have "x \<noteq> None"
    unfolding nonnull_results_def by blast
  with rx obtain c' where c': "x = Some (VConst c')" "r = Some c'" by auto
  with cr convertToType_typed have "type_of s' (VConst c') = Some t"
    unfolding typed_results_def by blast
  with s c' show "s' = s" and "\<exists>c'. r = Some c' \<and> ctype s c' = Some t" by simp_all
next
  show "convertConstantToType s (Some c) (Some t) \<noteq> Inl OutOfFuel"
    by (rule convertConstantToType_fuel)
qed

text \<open>
  Claim C10. With a null value, a null target type or no insertion anchor, both live entry
  points return null and leave the IR as it was: nothing is created and nothing fails.
\<close>

theorem live_conversion_null_arguments:
  "convertValueToType s None tyo before = Inr (None, s)
   \<and> convertValueToType s valo None before = Inr (None, s)
   \<and> convertValueToType s valo tyo None = Inr (None, s)
   \<and> convertValueToTypeAfter s None tyo after = Inr (None, s)
   \<and> convertValueToTypeAfter s valo None after = Inr (None, s)
   \<and> convertValueToTypeAfter s valo tyo None = Inr (None, s)"
proof -
  have "convertToType (convFuel s valo tyo) s valo tyo None None False = Inr (None, s)"
    if "valo = None \<or> tyo = None \<or> True" for valo tyo
  proof -
    obtain n where "convFuel s valo tyo = Suc n" using convFuel_pos by blast
    then show ?thesis by (simp split: option.splits)
  qed
  moreover have "convertToType (convFuel s None tyo) s None tyo b a False = Inr (None, s)"
    for tyo b a
  proof -
    obtain n where "convFuel s None tyo = Suc n" using convFuel_pos by blast
    then show ?thesis by simp
  qed
  moreover have "convertToType (convFuel s valo None) s valo None b a False = Inr (None, s)"
    for valo b a
  proof -
    obtain n where "convFuel s valo None = Suc n" using convFuel_pos by blast
    then show ?thesis by (simp split: option.splits)
  qed
  ultimately show ?thesis
    by (simp add: convertValueToType_def convertValueToTypeAfter_def)
qed


text \<open>
  Claim C8. A value of floating-point type converted to an integer type takes the route
  of \<open>floatToIntRoute\<close>: through \<open>i32\<close> and an integer cast when the target width is not
  16, 32, 64 or 80, and through the float type of the target's width and a bit cast
  otherwise. This holds for both live entry points and in constant-expression mode.
\<close>

theorem float_to_integer_route:
  "(type_of s v = Some (Float k) \<longrightarrow>
      convertValueToType s (Some v) (Some (Integer w)) (Some b)
        = floatToIntRoute s v k w (Some b) None False
      \<and> convertValueToTypeAfter s (Some v) (Some (Integer w)) (Some a)
        = floatToIntRoute s v k w None (Some a) False)
   \<and> (ctype s c = Some (Float k) \<longrightarrow>
      convertToType (convFuel s (Some (VConst c)) (Some (Integer w))) s
          (Some (VConst c)) (Some (Integer w)) None None True
        = floatToIntRoute s (VConst c) k w None None True)"
proof (intro conjI impI)
  assume ty: "type_of s v = Some (Float k)"
  then have f: "convFuel s (Some v) (Some (Integer w)) = Suc (Suc (Suc 0))"
    by (simp add: convFuel_def)
  from ty show "convertValueToType s (Some v) (Some (Integer w)) (Some b)
        = floatToIntRoute s v k w (Some b) None False"
    unfolding convertValueToType_def f
    by (rule convert_float_to_int) (simp_all add: anchored_def)
  from ty show "convertValueToTypeAfter s (Some v) (Some (Integer w)) (Some a)
        = floatToIntRoute s v k w None (Some a) False"
    unfolding convertValueToTypeAfter_def f
    by (rule convert_float_to_int) (simp_all add: anchored_def)
next
  assume ty: "ctype s c = Some (Float k)"
  then have f: "convFuel s (Some (VConst c)) (Some (Integer w)) = Suc (Suc (Suc 0))"
    by (simp add: convFuel_def)
  show "convertToType (convFuel s (Some (VConst c)) (Some (Integer w))) s
          (Some (VConst c)) (Some (Integer w)) None None True
        = floatToIntRoute s (VConst c) k w None None True"
    unfolding f
    by (rule convert_float_to_int) (simp_all add: anchored_def ty)
qed


subsection \<open>The claims at concrete inputs\<close>


lemmas ex_eval = ex_state_def ex_alloca_def convertValueToType_def convertValueToTypeAfter_def
  convFuel_def convertLadder_def castTo_def placeInst_def newInst_def insertBeforeAfter_def
  insertBefore_def insertAfter_def in_layout_def map_blocks_def ins_before_def ins_after_def
  castInst_def eval_nat_numeral

theorem convert_returns_target_type_witness:
  "(\<exists>r s'. convertValueToType ex_state (Some (VInst 0)) (Some (Integer 64)) (Some 0) = Inr (r, s')
     \<and> (\<exists>x. r = Some x \<and> type_of s' x = Some (Integer 64)))
   \<and> load_ok ex_state (VInst 0)
   \<and> convertValueToTypeAfter ex_state (Some (VInst 0)) (Some (Integer 64)) (Some 0)
         \<noteq> Inl OutOfFuel"
proof -
  have lo: "load_ok ex_state (VInst 0)"
    by (simp add: load_ok_def ex_state_def ex_alloca_def)
  have "\<exists>r s'. convertValueToType ex_state (Some (VInst 0)) (Some (Integer 64)) (Some 0) = Inr (r, s')"
    by (simp add: ex_eval)
  then obtain r s' where
    e: "convertValueToType ex_state (Some (VInst 0)) (Some (Integer 64)) (Some 0) = Inr (r, s')"
    by blast
  with lo convert_returns_target_type[of ex_state "VInst 0" "Integer 64" 0 r s' 0]
  show ?thesis by blast
qed

theorem constant_conversion_typed_and_pure_witness:
  "\<exists>r. convertConstantToType ex_state (Some (CInt (Integer 32) 5)) (Some (Float Double)) =
        Inr (r, ex_state)
     \<and> (\<exists>c'. r = Some c' \<and> ctype ex_state c' = Some (Float Double))"
proof -
  have "\<exists>r s'. convertConstantToType ex_state (Some (CInt (Integer 32) 5)) (Some (Float Double)) =
        Inr (r, s')"
    by (simp add: convertConstantToType_def convFuel_def convertLadder_def intToFloat_def
        numeral_3_eq_3 castTo_def constCast_def)
  then obtain r s' where
    e: "convertConstantToType ex_state (Some (CInt (Integer 32) 5)) (Some (Float Double)) =
        Inr (r, s')"
    by blast
  with constant_conversion_typed_and_pure[of ex_state "CInt (Integer 32) 5" "Float Double" r s']
  show ?thesis by blast
qed

theorem live_conversion_null_arguments_witness:
  "convertValueToType ex_state None (Some (Integer 8)) (Some 0) = Inr (None, ex_state)
   \<and> convertValueToTypeAfter ex_state (Some (VInst 0)) (Some (Integer 8)) None = Inr (None, ex_state)"
  using live_conversion_null_arguments[of ex_state "Some (Integer 8)" "Some 0" "Some (VInst 0)" None]
  by blast


theorem float_to_integer_route_witness:
  "type_of ex_state (VArg 0 0) = Some (Float Double)
   \<and> (\<exists>s'. convertValueToType ex_state (Some (VArg 0 0)) (Some (Integer 24)) (Some 0)
              = Inr (Some (VInst 3), s')
        \<and> insts s' 1 = Some (\<lparr>opc = Cast FPCast, ops = [VArg 0 0], ity = Float Single, iname = []\<rparr>)
        \<and> insts s' 2 = Some (\<lparr>opc = Cast BitCast, ops = [VInst 1], ity = Integer 32, iname = []\<rparr>)
        \<and> insts s' 3 = Some (\<lparr>opc = Cast IntegerCast, ops = [VInst 2], ity = Integer 24, iname = []\<rparr>)
        \<and> map (\<lambda>(f, fn). fblocks fn) (funcs s') = [[[1, 2, 3, 0]]])
   \<and> (\<exists>s'. convertValueToTypeAfter ex_state (Some (VArg 0 0)) (Some (Integer 64)) (Some 0)
              = Inr (Some (VInst 1), s')
        \<and> insts s' 1 = Some (\<lparr>opc = Cast BitCast, ops = [VArg 0 0], ity = Integer 64, iname = []\<rparr>)
        \<and> map (\<lambda>(f, fn). fblocks fn) (funcs s') = [[[0, 1]]])"
proof -
  have ty: "type_of ex_state (VArg 0 0) = Some (Float Double)"
    by (simp add: ex_state_def)
  note r = float_to_integer_route[of ex_state "VArg 0 0" Double _ 0 0, THEN conjunct1, rule_format, OF ty]
  show ?thesis
    apply (simp only: r ty)
    apply (simp add: floatToIntRoute_def floatOfWidth_def castThen_def ex_eval)
    done
qed


section \<open>Claims about stack slots\<close>


lemma insertBefore_cfg:
  "insertBefore s i b = Inr s' \<Longrightarrow>
     cfg_stack s' = cfg_stack s \<and> cfg_objects s' = cfg_objects s"
  by (auto simp: insertBefore_def map_blocks_def split: if_splits)

text \<open>
  Claim C7. When a call of \<open>getStackVariable\<close> for a function and a stack offset returns an
  alloca, a second call for the same function and offset, whatever type and name it asks
  for, returns that alloca and its configuration entry and changes nothing: it finds the
  slot registered under (function, offset) and allocates no new one.
\<close>

theorem stack_slot_idempotent:
  "getStackVariable s f off t n = Inr ((a, csv), s1) \<longrightarrow>
     getStackVariable s1 f off t' n' = Inr ((a, csv), s1)"
proof
  assume h: "getStackVariable s f off t n = Inr ((a, csv), s1)"
  show "getStackVariable s1 f off t' n' = Inr ((a, csv), s1)"
  proof (cases "getLlvmStackVariable s f off")
    case (Some ret)
    with h have "s1 = s" "ret = a" "getConfigStackVariable s a = Some csv"
      by (auto simp: getStackVariable_def Let_def split: option.splits)
    with Some show ?thesis
      by (simp add: getStackVariable_def Let_def)
  next
    case None
    with h have "cfg_stack s1 (f, off) = Some a \<and> cfg_objects s1 a = Some csv"
      by (auto simp: getStackVariable_def Let_def insertStackVariable_def newInst_def
          split: option.splits prod.splits sum.splits dest!: insertBefore_cfg)
    then show ?thesis
      by (simp add: getStackVariable_def Let_def getLlvmStackVariable_def
          getConfigStackVariable_def)
  qed
qed

theorem stack_slot_idempotent_witness:
  "\<exists>csv s1. getStackVariable ex_state 0 (- 16) (Integer 32) ''x'' = Inr ((1, csv), s1)
     \<and> co_name csv = ''x_-16''
     \<and> insts s1 1 = Some \<lparr>opc = Alloca (Integer 32), ops = [], ity = Pointer (Integer 32),
                             iname = ''x_-16''\<rparr>
     \<and> map (\<lambda>(f, fn). fblocks fn) (funcs s1) = [[[1, 0]]]
     \<and> getStackVariable s1 0 (- 16) (Integer 32) ''x'' = Inr ((1, csv), s1)"
proof -
  have "\<exists>csv s1. getStackVariable ex_state 0 (- 16) (Integer 32) ''x'' = Inr ((1, csv), s1)
     \<and> co_name csv = ''x_-16''
     \<and> insts s1 1 = Some \<lparr>opc = Alloca (Integer 32), ops = [], ity = Pointer (Integer 32),
                             iname = ''x_-16''\<rparr>
     \<and> map (\<lambda>(f, fn). fblocks fn) (funcs s1) = [[[1, 0]]]"
    by (simp add: getStackVariable_def Let_def getLlvmStackVariable_def ex_state_def
        newInst_def inst_begin_def insertBefore_def in_layout_def map_blocks_def
        ins_before_def insertStackVariable_def to_string_def digit_char_def)
  then obtain csv s1 where
    e: "getStackVariable ex_state 0 (- 16) (Integer 32) ''x'' = Inr ((1, csv), s1)"
    and r: "co_name csv = ''x_-16''"
      "insts s1 1 = Some \<lparr>opc = Alloca (Integer 32), ops = [], ity = Pointer (Integer 32),
                             iname = ''x_-16''\<rparr>"
      "map (\<lambda>(f, fn). fblocks fn) (funcs s1) = [[[1, 0]]]"
    by (elim exE conjE)
  from stack_slot_idempotent[of ex_state 0 "- 16" "Integer 32" "''x''" 1 csv s1 "Integer 32" "''x''"] e
  have "getStackVariable s1 0 (- 16) (Integer 32) ''x'' = Inr ((1, csv), s1)" by simp
  with e r show ?thesis by (intro exI conjI)
qed


section \<open>Claims about global variables\<close>

text \<open>
  Claim C2, as stated, fails: at address \<open>0x1000\<close> of the example image the check passes
  and no initializer can be read; the call returns null and registers the address in the
  configuration, but the global it built, handle \<open>1\<close>, is still a global of the module.
\<close>

theorem unreadable_initializer_counterexample:
  "globalVariableCanBeCreated ex_state (Some ex_image) (Some 4096) False
   \<and> initializerUnreadable ex_state ex_image None 4096 ''g''
   \<and> returned (getGlobalVariable ex_state (Some ex_image) None (Some 4096) False ''g'')
        = Some None
   \<and> config_handle_after
        (getGlobalVariable ex_state (Some ex_image) None (Some 4096) False ''g'') 4096 = Some 1
   \<and> module_globals_after
        (getGlobalVariable ex_state (Some ex_image) None (Some 4096) False ''g'') = Some [1]"
  by (simp add: gv_eval initializerUnreadable_def outcome_defs ex_image_def ex_state_def)

text \<open>
  Claim C2, amended. When the check passes, no global exists yet under the name and the
  address, and no suitable initializer can be read, the call returns null, the
  configuration holds an entry for the address that points to the global the call built,
  and that global remains in the module, after the globals that were there.
\<close>

theorem unreadable_initializer_registers_global:
  "globalVariableCanBeCreated s (Some objf) (Some a) strict \<longrightarrow>
   getLlvmGlobalVariable s (appendHex objf name a) a = None \<longrightarrow>
   initializerUnreadable s objf dbgf a name \<longrightarrow>
     returned (getGlobalVariable s (Some objf) dbgf (Some a) strict name) = Some None
     \<and> config_handle_after (getGlobalVariable s (Some objf) dbgf (Some a) strict name) a
          = Some (next_id s)
     \<and> module_globals_after (getGlobalVariable s (Some objf) dbgf (Some a) strict name)
          = Some (module_globals s @ [next_id s])"
  by (auto simp: getGlobalVariable_def initializerUnreadable_def Let_def newGlobal_def
      rebuildFromImage_def insertGlobalVariable_def outcome_defs)

theorem unreadable_initializer_registers_global_witness:
  "globalVariableCanBeCreated ex_state (Some ex_image) (Some 4096) False
   \<and> getLlvmGlobalVariable ex_state (appendHex ex_image ''g'' 4096) 4096 = None
   \<and> initializerUnreadable ex_state ex_image None 4096 ''g''
   \<and> returned (getGlobalVariable ex_state (Some ex_image) None (Some 4096) False ''g'')
        = Some None
   \<and> config_handle_after
        (getGlobalVariable ex_state (Some ex_image) None (Some 4096) False ''g'') 4096
        = Some (next_id ex_state)"
proof -
  have h1: "globalVariableCanBeCreated ex_state (Some ex_image) (Some 4096) False"
    by (simp add: globalVariableCanBeCreated_def ex_image_def ex_state_def)
  have h2: "getLlvmGlobalVariable ex_state (appendHex ex_image ''g'' 4096) 4096 = None"
    by (simp add: getLlvmGlobalVariable_def ex_image_def ex_state_def)
  have h3: "initializerUnreadable ex_state ex_image None 4096 ''g''"
    by (simp add: gv_eval initializerUnreadable_def ex_image_def ex_state_def)
  from unreadable_initializer_registers_global[of ex_state ex_image 4096 False "''g''" None]
    h1 h2 h3
  show ?thesis by simp
qed


text \<open>
  Claim C6, as stated, fails: at address \<open>0x1000\<close> of the example image the first call
  returns null and the second call, with the same arguments, returns the global \<open>1\<close> that
  the first call built and registered.
\<close>

theorem repeated_call_counterexample:
  "getGlobalVariableTwice ex_state (Some ex_image) None (Some 4096) False ''g''
     = Some (None, Some 1)"
  by (simp add: getGlobalVariableTwice_def gv_eval ex_image_def ex_state_def)


text \<open>
  Claim C6, amended. When a call returns a global, every later call with the same
  arguments returns that same global and changes nothing.
\<close>

theorem repeated_call_returns_same_global:
  "getGlobalVariable s objfo dbgf addro strict name = Some (Inr (Some g, s1)) \<longrightarrow>
     getGlobalVariable s1 objfo dbgf addro strict name = Some (Inr (Some g, s1))"
proof
  assume h: "getGlobalVariable s objfo dbgf addro strict name = Some (Inr (Some g, s1))"
  then have can: "globalVariableCanBeCreated s objfo addro strict"
    by (auto simp: getGlobalVariable_def split: if_splits)
  then obtain objf a where oa: "objfo = Some objf" "addro = Some a"
    by (auto simp: globalVariableCanBeCreated_def split: option.splits)
  let ?n = "appendHex objf name a"
  show "getGlobalVariable s1 objfo dbgf addro strict name = Some (Inr (Some g, s1))"
  proof (cases "getLlvmGlobalVariable s ?n a")
    case (Some gv)
    with h can oa have "g = gv" "s1 = s"
      by (auto simp: getGlobalVariable_def)
    with Some can oa show ?thesis
      by (simp add: getGlobalVariable_def)
  next
    case None
    from created_result[OF h[unfolded oa] can[unfolded oa] None]
    have st: "same_tables s s1" and nm: "named_only s1 ?n g"
      and cf: "config_handle_at s1 a = Some g" by simp_all
    from st can have "globalVariableCanBeCreated s1 objfo addro strict"
      using canBeCreated_cong[of s1 s objfo addro strict] by (simp add: same_tables_def)
    moreover from nm cf have "getLlvmGlobalVariable s1 ?n a = Some g"
      by (rule lookup_registered)
    ultimately show ?thesis using oa
      by (simp add: getGlobalVariable_def)
  qed
qed



lemmas conv_const_eval = convertConstantToType_def convFuel_def convertLadder_def castTo_def
  constCast_def eraseGlobal_def global_used_def all_inst_ids_def replaceGlobalUses_def
  numeral_3_eq_3

theorem repeated_call_returns_same_global_witness:
  "\<exists>s1. getGlobalVariable ex_state (Some ex_image_word) None (Some 4096) False ''g''
           = Some (Inr (Some 2, s1))
      \<and> getGlobalVariable s1 (Some ex_image_word) None (Some 4096) False ''g''
           = Some (Inr (Some 2, s1))"
proof -
  have "\<exists>s1. getGlobalVariable ex_state (Some ex_image_word) None (Some 4096) False ''g''
           = Some (Inr (Some 2, s1))"
    by (simp add: gv_eval conv_const_eval ex_image_word_def ex_image_def ex_state_def ex_alloca_def)
  then obtain s1 where
    e: "getGlobalVariable ex_state (Some ex_image_word) None (Some 4096) False ''g''
           = Some (Inr (Some 2, s1))" ..
  with repeated_call_returns_same_global[of ex_state "Some ex_image_word" None "Some 4096"
      False "''g''" 2 s1]
  show ?thesis by (intro exI[of _ s1]) simp
qed


text \<open>
  Claim C3 does not hold of the code. The check for a cycle compares the constant read
  from the image with the global under construction and follows initializers that are
  global variables themselves; a constant that mentions the global under a cast passes it
  unchanged. With the module \<open>ex_state\<close> and the image \<open>ex_image_cast\<close>, whose read at
  \<open>0x1000\<close> yields the global under construction cast to \<open>i8*\<close>, \<open>getGlobalVariable\<close>
  returns the global \<open>2\<close>, whose initializer is a cast of a cast of global \<open>2\<close>: the
  replacement of the uses of the global under construction by the rebuilt global puts
  the rebuilt global into its own initializer.
\<close>

theorem cast_of_global_installs_self_reference:
  "returned (getGlobalVariable ex_state (Some ex_image_cast) None (Some 4096) False ''g'')
     = Some (Some 2)
   \<and> initializer_after
       (getGlobalVariable ex_state (Some ex_image_cast) None (Some 4096) False ''g'') 2
     = Some (CCast BitCast (CCast BitCast (CGlobal 2) (Pointer (Integer 32)))
              (Pointer (Integer 8)))
   \<and> self_referencing_after
       (getGlobalVariable ex_state (Some ex_image_cast) None (Some 4096) False ''g'') 2"
proof -
  have "\<exists>s'. getGlobalVariable ex_state (Some ex_image_cast) None (Some 4096) False ''g''
              = Some (Inr (Some 2, s'))
          \<and> initializer_of s' 2
              = Some (CCast BitCast (CCast BitCast (CGlobal 2) (Pointer (Integer 32)))
                       (Pointer (Integer 8)))"
    by (simp add: gv_eval conv_const_eval ex_image_cast_def ex_image_def ex_state_def
        ex_alloca_def initializer_of_def)
  then obtain s' where
    e: "getGlobalVariable ex_state (Some ex_image_cast) None (Some 4096) False ''g''
              = Some (Inr (Some 2, s'))"
    and i: "initializer_of s' 2
              = Some (CCast BitCast (CCast BitCast (CGlobal 2) (Pointer (Integer 32)))
                       (Pointer (Integer 8)))"
    by (elim exE conjE)
  from i have "(2, 2) \<in> ref_rel s'" by (simp add: ref_rel_def init_refs_def)
  then have "self_referencing s' 2" unfolding self_referencing_def by (rule r_into_trancl)
  with e i show ?thesis
    by (simp add: returned_def initializer_after_def self_referencing_after_def state_after_def)
qed


text \<open>
  What the check does cover. In a module whose handles are fresh, with an image whose
  reads mention the global under construction only by being that global, a global that
  \<open>getGlobalVariable\<close> installs has an initializer that does not reference the global.
  When the constant read from the image is the global under construction itself, the
  initializer installed is the constant of the default word type read from the image at
  the address.
\<close>

lemma direct_self_reference_replaced:
  "handles_fresh s \<longrightarrow> image_reads_ok s objf dbgf a name \<longrightarrow>
   getLlvmGlobalVariable s (appendHex objf name a) a = None \<longrightarrow>
   getGlobalVariable s (Some objf) dbgf (Some a) strict name = Some (Inr (Some g, s')) \<longrightarrow>
     \<not> self_referencing s' g
     \<and> (readsItself s objf dbgf a name \<longrightarrow>
          initializer_of s' g \<noteq> None
          \<and> initializer_of s' g = getConstantTyped objf (default_type s) a)"
proof (intro impI)
  let ?n = "next_id s"
  let ?s0 = "underConstruction s objf dbgf a name"
  let ?d = "declareGlobal s objf dbgf a (appendHex objf name a)"
  assume hf: "handles_fresh s" and img: "image_reads_ok s objf dbgf a name"
    and nf: "getLlvmGlobalVariable s (appendHex objf name a) a = None"
    and h: "getGlobalVariable s (Some objf) dbgf (Some a) strict name = Some (Inr (Some g, s'))"
  from hf have rb: "refs_below ?n (globals s)" by (rule handles_fresh_refs)
  from img have typed: "\<And>t c. getConstantTyped objf t a = Some c \<Longrightarrow> \<forall>h \<in> set (crefs c). h < ?n"
    and auto_read: "\<And>c. getConstantAuto objf ?s0 a = Some c \<Longrightarrow>
                     c = CGlobal ?n \<or> (\<forall>h \<in> set (crefs c). h < ?n)"
    by (auto simp: image_reads_ok_def)
  from getGlobalVariable_creates[OF h nf]
  show "\<not> self_referencing s' g
     \<and> (readsItself s objf dbgf a name \<longrightarrow>
          initializer_of s' g \<noteq> None
          \<and> initializer_of s' g = getConstantTyped objf (default_type s) a)"
  proof (elim disjE conjE)
    assume i: "gd_init ?d \<noteq> None" and g: "g = ?n" and gs: "globals s' = globals ?s0"
    from i obtain c where c: "gd_init ?d = Some c" by auto
    from declare_init_typed[OF c] typed have "\<forall>h \<in> set (crefs c). h < ?n" by blast
    with rb c have "refs_below ?n (globals s')"
      by (auto simp: gs underConstruction_simps refs_below_def)
    then have "\<not> self_referencing s' g" using g by (intro not_self_referencing[of ?n]) simp_all
    with i show ?thesis by (auto simp: readsItself_def)
  next
    assume i: "gd_init ?d = None"
      and r: "rebuildFromImage ?s0 objf a ?d (hasReadOnlyDataOnAddress objf a) ?n
                = Some (Inr (Some g, s'))"
    from rb i have rb0: "refs_below ?n (globals ?s0)"
      by (auto simp: underConstruction_simps refs_below_def)
    have det: "\<forall>h \<in> set (crefs c'). h < ?n"
      if "detectGlobalVariableInitializerCycle ?s0 (Some ?n) (getConstantAuto objf ?s0 a)
            (Some objf) (Some a) = Some (Some c')" for c'
      using detect_result[OF that] typed auto_read by blast
    from rebuild_globals[OF r rb0 _ _ det] obtain c' ct where
      dt: "detectGlobalVariableInitializerCycle ?s0 (Some ?n) (getConstantAuto objf ?s0 a)
             (Some objf) (Some a) = Some (Some c')"
      and g: "g = Suc ?n"
      and gs: "globals s' = filter (\<lambda>(h, x). h \<noteq> ?n) (globals ?s0)
                 @ [(Suc ?n, \<lparr>gty = ct, ginit = Some c',
                      gconst = hasReadOnlyDataOnAddress objf a, gname = gd_name ?d\<rparr>)]"
      by (auto simp: underConstruction_simps)
    from rb0 det[OF dt] have "refs_below ?n (globals s')"
      by (auto simp: gs refs_below_def)
    then have nsr: "\<not> self_referencing s' g"
      using g by (intro not_self_referencing[of ?n]) simp_all
    have "Suc ?n \<notin> fst ` set (filter (\<lambda>(h, x). h \<noteq> ?n) (globals ?s0))"
      using handles_fresh_ids[OF hf] by (fastforce simp: underConstruction_simps)
    then have io: "initializer_of s' g = Some c'"
      by (simp add: initializer_of_def gs g lookup_append_fresh)
    have "getConstantTyped objf (default_type s) a = Some c'"
      if "readsItself s objf dbgf a name"
      using that dt by (simp add: readsItself_def detect_self underConstruction_simps)
    with nsr io show ?thesis by simp
  qed
qed



lemma direct_self_reference_replaced_example:
  "handles_fresh ex_state
   \<and> image_reads_ok ex_state ex_image_self None 4096 ''g''
   \<and> readsItself ex_state ex_image_self None 4096 ''g''
   \<and> (\<exists>s'. getGlobalVariable ex_state (Some ex_image_self) None (Some 4096) False ''g''
              = Some (Inr (Some 2, s'))
          \<and> \<not> self_referencing s' 2
          \<and> initializer_of s' 2 = Some (CInt (Integer 32) 4096))"
proof -
  have hf: "handles_fresh ex_state"
    by (simp add: handles_fresh_def ex_state_def)
  have rd: "getConstantAuto ex_image_self
              (underConstruction ex_state ex_image_self None 4096 ''g'') 4096
            = Some (CGlobal (next_id ex_state))"
    by (simp add: underConstruction_def declareGlobal_def fromDebug_def fromConfig_def
        fromCrypto_def getConfigGlobalVariable_def Let_def ex_image_self_def ex_image_def
        ex_state_def)
  have io: "image_reads_ok ex_state ex_image_self None 4096 ''g''"
    unfolding image_reads_ok_def rd by (simp add: ex_image_self_def ex_image_def)
  have ri: "readsItself ex_state ex_image_self None 4096 ''g''"
    unfolding readsItself_def rd
    by (simp add: declareGlobal_def fromDebug_def fromConfig_def
        fromCrypto_def getConfigGlobalVariable_def Let_def ex_image_self_def ex_image_def
        ex_state_def)
  have nf: "getLlvmGlobalVariable ex_state (appendHex ex_image_self ''g'' 4096) 4096 = None"
    by (simp add: getLlvmGlobalVariable_def ex_image_self_def ex_image_def ex_state_def)
  have "\<exists>s'. getGlobalVariable ex_state (Some ex_image_self) None (Some 4096) False ''g''
              = Some (Inr (Some 2, s'))"
    by (simp add: gv_eval conv_const_eval ex_image_self_def ex_image_def ex_state_def
        ex_alloca_def)
  then obtain s' where
    e: "getGlobalVariable ex_state (Some ex_image_self) None (Some 4096) False ''g''
              = Some (Inr (Some 2, s'))" ..
  from direct_self_reference_replaced[of ex_state ex_image_self None 4096 "''g''"
      False 2 s'] hf io nf e ri
  have "\<not> self_referencing s' 2 \<and> initializer_of s' 2 = Some (CInt (Integer 32) 4096)"
    by (simp add: ex_image_self_def ex_image_def ex_state_def)
  with hf io ri e show ?thesis by blast
qed


section \<open>Claims about localize\<close>

text \<open>
  Claim C9, as stated, fails: with the store \<open>0\<close> localized and no uses given, the load
  \<open>1\<close>, which is neither the new alloca \<open>11\<close> nor the new store \<open>12\<close> nor a given use, still
  stands in the function and still has the pointer operand of the store as its operand.
\<close>

theorem localize_counterexample:
  "operand_occurs_after (localize ex_store_state 0 []) 1 (VConst (CGlobal 10))
   \<and> \<not> operand_occurs_after (localize ex_store_state 0 [1]) 1 (VConst (CGlobal 10))
   \<and> operand_occurs_after (localize ex_store_state 0 [1]) 1 (VInst 11)"
  by (simp add: localize_eval ex_store_state_def ex_state_def)


text \<open>
  Claim C9, amended. After \<open>localize\<close> of a store \<open>d\<close> with value operand \<open>v\<close> and pointer
  operand \<open>p\<close>, in a module whose handles are fresh and with uses that are existing
  instructions: a new alloca of the pointee type of \<open>p\<close> stands immediately before what
  was the front of the entry block, a new store of \<open>v\<close> to that alloca stands where \<open>d\<close>
  stood, \<open>d\<close> is erased, and in every given use the operands that were \<open>p\<close> are the new
  alloca, so that \<open>p\<close> is an operand of no given use. Instructions that were not given keep
  their operands.
\<close>

theorem localize_effect:
  "ids_fresh s \<longrightarrow> insts s d = Some st \<longrightarrow> ops st = [v, p] \<longrightarrow>
   (\<forall>u \<in> set uses. u < next_id s) \<longrightarrow> localize s d uses = Inr (b, s') \<longrightarrow>
     (\<exists>t f fn front.
        type_of s p = Some (Pointer t) \<and> getFunction s d = Some (f, fn)
        \<and> entryFront fn = Some front
        \<and> insts s' (next_id s) = Some \<lparr>opc = Alloca t, ops = [], ity = Pointer t, iname = []\<rparr>
        \<and> insts s' (Suc (next_id s))
             = Some \<lparr>opc = Store, ops = [v, VInst (next_id s)], ity = Void, iname = []\<rparr>
        \<and> insts s' d = None
        \<and> layout s' = map (map (map (\<lambda>x. if x = d then Suc (next_id s) else x)
                                   \<circ> ins_before (next_id s) front)) (layout s)
        \<and> (\<forall>u \<in> set uses. \<exists>ins. insts s u = Some ins
               \<and> insts s' u = Some (patch p (VInst (next_id s)) ins)
               \<and> \<not> operand_occurs s' u p)
        \<and> (\<forall>i. i \<notin> set uses \<longrightarrow> i \<noteq> d \<longrightarrow> i < next_id s \<longrightarrow> insts s' i = insts s i))"
proof (intro impI)
  let ?l = "next_id s" and ?ns = "Suc (next_id s)"
  assume fr: "ids_fresh s" and st: "insts s d = Some st" and ops: "ops st = [v, p]"
    and us: "\<forall>u \<in> set uses. u < next_id s" and h: "localize s d uses = Inr (b, s')"
  from h st ops obtain f fn t front s2 s4 where
    gf: "getFunction s d = Some (f, fn)" and ty: "type_of s p = Some (Pointer t)"
    and ef: "entryFront fn = Some front"
    and i1: "insertBefore (s\<lparr>insts := (insts s)(?l \<mapsto>
               \<lparr>opc = Alloca t, ops = [], ity = Pointer t, iname = []\<rparr>), next_id := ?ns\<rparr>)
               ?l front = Inr s2"
    and i2: "insertBefore (s2\<lparr>insts := (insts s2)(next_id s2 \<mapsto>
               \<lparr>opc = Store, ops = [v, VInst ?l], ity = Void, iname = []\<rparr>),
               next_id := Suc (next_id s2)\<rparr>) (next_id s2) d = Inr s4"
    and ra: "replaceInAll (eraseInst s4 d) uses p (VInst ?l) = Inr s'"
    by (auto simp: localize_def newInst_def
        split: option.splits opcode.splits list.splits prod.splits ty.splits sum.splits)
  from insertBefore_result[OF i1] have
    s2i: "insts s2 = (insts s)(?l \<mapsto> \<lparr>opc = Alloca t, ops = [], ity = Pointer t, iname = []\<rparr>)"
    and s2l: "layout s2 = map (map (ins_before ?l front)) (layout s)"
    and s2n: "next_id s2 = ?ns"
    by (simp_all add: layout_def)
  from insertBefore_result[OF i2] s2n have
    s4i: "insts s4 = (insts s2)(?ns \<mapsto> \<lparr>opc = Store, ops = [v, VInst ?l], ity = Void, iname = []\<rparr>)"
    and s4l: "layout s4 = map (map (ins_before ?ns d)) (layout s2)"
    by (simp_all add: layout_def)
  from fr st have dl: "d < ?l" by (rule insts_fresh)
  then have nd: "?ns \<noteq> d" and ld: "?l \<noteq> d" by simp_all
  have el: "layout (eraseInst s4 d) = map (map (filter (\<lambda>x. x \<noteq> d))) (layout s4)"
    by (simp add: eraseInst_def layout_def map_blocks_def comp_def case_prod_unfold)
  have ei: "insts (eraseInst s4 d) = (insts s4)(d := None)"
    by (simp add: eraseInst_def map_blocks_def)
  from replaceInAll_result[OF ra] have
    rf: "funcs s' = funcs (eraseInst s4 d)"
    and ri: "\<And>i. insts s' i = (if i \<in> set uses
               then map_option (patch p (VInst ?l)) (insts (eraseInst s4 d) i)
               else insts (eraseInst s4 d) i)"
    by simp_all
  from us have lu: "?l \<notin> set uses" and nu: "?ns \<notin> set uses" by auto
  have a: "insts s' ?l = Some \<lparr>opc = Alloca t, ops = [], ity = Pointer t, iname = []\<rparr>"
    using lu ld by (simp add: ri ei s4i s2i)
  have bb: "insts s' ?ns = Some \<lparr>opc = Store, ops = [v, VInst ?l], ity = Void, iname = []\<rparr>"
    using nu nd by (simp add: ri ei s4i s2i)
  have c: "insts s' d = None"
    by (simp add: ri ei)
  have "layout s' = layout (eraseInst s4 d)"
    using rf by (simp add: layout_def)
  then have l: "layout s' = map (map (map (\<lambda>x. if x = d then ?ns else x)
                                   \<circ> ins_before ?l front)) (layout s)"
    using nd by (simp add: el s4l s2l erase_after_insert comp_def)
  have pl: "p \<noteq> VInst ?l"
  proof
    assume "p = VInst ?l"
    with ty obtain x where "insts s ?l = Some x" by auto
    from insts_fresh[OF fr this] show False by simp
  qed
  have u: "\<exists>ins. insts s u = Some ins \<and> insts s' u = Some (patch p (VInst ?l) ins)
               \<and> \<not> operand_occurs s' u p" if "u \<in> set uses" for u
  proof -
    from replaceInAll_exists[OF ra that] obtain x where x: "insts (eraseInst s4 d) u = Some x"
      by auto
    from that us have "u \<noteq> ?l" "u \<noteq> ?ns" by auto
    with x have "insts s u = Some x" by (simp add: ei s4i s2i split: if_splits)
    moreover from that x have "insts s' u = Some (patch p (VInst ?l) x)" by (simp add: ri)
    ultimately show ?thesis using pl
      by (auto simp: operand_occurs_def patched_no_operand)
  qed
  have o: "insts s' i = insts s i" if "i \<notin> set uses" "i \<noteq> d" "i < ?l" for i
    using that by (simp add: ri ei s4i s2i)
  from gf ty ef a bb c l u o
  show "\<exists>t f fn front.
        type_of s p = Some (Pointer t) \<and> getFunction s d = Some (f, fn)
        \<and> entryFront fn = Some front
        \<and> insts s' (next_id s) = Some \<lparr>opc = Alloca t, ops = [], ity = Pointer t, iname = []\<rparr>
        \<and> insts s' (Suc (next_id s))
             = Some \<lparr>opc = Store, ops = [v, VInst (next_id s)], ity = Void, iname = []\<rparr>
        \<and> insts s' d = None
        \<and> layout s' = map (map (map (\<lambda>x. if x = d then Suc (next_id s) else x)
                                   \<circ> ins_before (next_id s) front)) (layout s)
        \<and> (\<forall>u \<in> set uses. \<exists>ins. insts s u = Some ins
               \<and> insts s' u = Some (patch p (VInst (next_id s)) ins)
               \<and> \<not> operand_occurs s' u p)
        \<and> (\<forall>i. i \<notin> set uses \<longrightarrow> i \<noteq> d \<longrightarrow> i < next_id s \<longrightarrow> insts s' i = insts s i)"
    by blast
qed



theorem localize_effect_witness:
  "ids_fresh ex_store_state
   \<and> (\<exists>b s'. localize ex_store_state 0 [1] = Inr (b, s')
        \<and> insts s' 11 = Some \<lparr>opc = Alloca (Integer 32), ops = [], ity = Pointer (Integer 32),
                                iname = []\<rparr>
        \<and> insts s' 12 = Some \<lparr>opc = Store, ops = [VConst (CInt (Integer 32) 5), VInst 11],
                                ity = Void, iname = []\<rparr>
        \<and> insts s' 0 = None
        \<and> layout s' = [[[11, 12, 1]]]
        \<and> \<not> operand_occurs s' 1 (VConst (CGlobal 10)))"
proof -
  have fr: "ids_fresh ex_store_state"
    by (auto simp: ids_fresh_def in_layout_def ex_store_state_def ex_state_def)
  have "\<exists>s'. localize ex_store_state 0 [1] = Inr (True, s')"
    by (simp add: localize_eval ex_store_state_def ex_state_def)
  then obtain b s' where e: "localize ex_store_state 0 [1] = Inr (b, s')" by blast
  have st: "insts ex_store_state 0
      = Some \<lparr>opc = Store, ops = [VConst (CInt (Integer 32) 5), VConst (CGlobal 10)],
               ity = Void, iname = []\<rparr>"
    by (simp add: ex_store_state_def)
  have us: "\<forall>u \<in> set [1]. u < next_id ex_store_state"
    by (simp add: ex_store_state_def)
  from localize_effect[of ex_store_state 0 _ "VConst (CInt (Integer 32) 5)" "VConst (CGlobal 10)"
      "[1]" b s'] fr st us e
  have "insts s' 11 = Some \<lparr>opc = Alloca (Integer 32), ops = [], ity = Pointer (Integer 32),
                                iname = []\<rparr>
        \<and> insts s' 12 = Some \<lparr>opc = Store, ops = [VConst (CInt (Integer 32) 5), VInst 11],
                                ity = Void, iname = []\<rparr>
        \<and> insts s' 0 = None
        \<and> layout s' = [[[11, 12, 1]]]
        \<and> \<not> operand_occurs s' 1 (VConst (CGlobal 10))"
    by (auto simp: ex_store_state_def ex_state_def getFunction_def entryFront_def layout_def
        ins_before_def)
  with fr e show ?thesis by blast
qed


section \<open>Changing the type of an object: the users keep type-checking\<close>


subsection \<open>Conversions only add instructions\<close>

































subsection \<open>Types persist\<close>
















subsection \<open>The primitive changes\<close>










subsection \<open>Steps of the loop\<close>














subsection \<open>Constants and the invariant\<close>











subsection \<open>The instruction users\<close>













subsection \<open>The shape of a converted constant\<close>














subsection \<open>The loop over the users\<close>








subsection \<open>The users at the start\<close>





















subsection \<open>The declarations\<close>

















subsection \<open>A concrete change\<close>



end
